theory Spec2Isabelle
  imports Main
begin

section \<open>Data model of \<open>src/backbone.router.js\<close>\<close>

text \<open>
  The router is one object literal whose methods share a handful of closure variables
  (\<open>routes\<close>, \<open>extendedRoutes\<close>, \<open>extendedController\<close>, \<open>closeControllers\<close>,
  \<open>cachedTriggers\<close>, \<open>router\<close>) and the properties \<open>this.options\<close>,
  \<open>this.dispatcher\<close> and \<open>this.currentRoutes\<close>. The embedding threads them through
  every function as one record. What the code hands to its collaborators (the user's action
  callables, the event dispatcher, Backbone's \<open>navigate\<close>) is appended to \<open>events\<close>;
  \<open>window.location\<close> and the \<open>localStorage\<close> item are fields of the record too.

  Conventions of the embedding:
  \<^item> The JavaScript objects used as tables hold their own properties as association lists
    in insertion order; an assignment to an existing key keeps its position. A read
    \<open>table[k]\<close> that finds no own property goes on to \<open>Object.prototype\<close>, whose
    members (\<open>constructor\<close>, \<open>toString\<close>, \<open>hasOwnProperty\<close>, ...) are a component of
    the state, since what they are and what they return is the engine's and the window's
    business. Enumeration (\<open>for ... in\<close>, \<open>_.forEach\<close> on an object) visits the own
    properties only, the keys that are array indices first, in ascending order, then the
    others in insertion order.
  \<^item> An assignment \<open>table["__proto__"] = v\<close> replaces the prototype of the table instead
    of adding a property. Under a path the router assigns only where \<open>routes[path]\<close> is
    falsy, which it is not for the inherited \<open>__proto__\<close>; the other keys it assigns
    under are route names, and the type of route names leaves \<open>__proto__\<close> out.
  \<^item> \<open>_\<close> is Underscore, whose \<open>forEach\<close> ignores what the callback returns.
  \<^item> A value that may be \<open>undefined\<close> is an \<open>option\<close>; a string is falsy when it is empty.
  \<^item> Arguments are arrays of strings or \<open>undefined\<close>; a trigger's \<open>args\<close> is an array
    or absent; \<open>before\<close> and \<open>after\<close> are arrays of triggers. A trigger is a value, given
    anew at every call: that \<open>processTrigger\<close> completes an absent \<open>args\<close> on the object
    it was given, before it hands the name to the dispatcher, shows in the arguments of that
    dispatch only.
  \<^item> User callables do not call back into the router: an action is an identifier recorded
    in \<open>events\<close> when it is applied, a close-guard is a function to the truthiness of what
    it returns, and every call of a guard is recorded in \<open>events\<close> too.
  \<^item> The log sink has no effect on the router, but reaching \<open>this.options.log\<close> while
    \<open>this.options\<close> is still \<open>undefined\<close> (before \<open>start\<close>) is a \<open>TypeError\<close>.
\<close>

datatype arg = Undefined | Str string

datatype error = TypeError | StackOverflow

datatype jsret = JTrue | JFalse | JUndefined

datatype trigger = TName string | TObj string "arg list option" bool

datatype action = NoAction | Invoke string | AliasTo string

record navopts =
  n_trigger :: "bool option"
  n_replace :: "bool option"

type_synonym guard = "string option \<Rightarrow> arg list option \<Rightarrow> navopts \<Rightarrow> bool"

text \<open>
  A member of \<open>Object.prototype\<close> as the router can meet it: \<open>m_key\<close> is the string it
  becomes when it is used as a property key; \<open>m_call\<close> is absent when the member is not a
  function, and otherwise gives the truthiness of what the call
  \<open>member.call(self, name, args, options)\<close> returns, or \<open>None\<close> when that call throws.
\<close>

record member =
  m_key :: string
  m_call :: "(string option \<Rightarrow> arg list option \<Rightarrow> navopts \<Rightarrow> bool option) option"

text \<open>What a read \<open>table[k]\<close> finds.\<close>

datatype 'v slot = Own 'v | Inherited member | Absent

text \<open>Route names: the strings that an assignment can use as the key of a new property.\<close>

typedef rname = "{n :: string. n \<noteq> ''__proto__''}"
  morphisms nameOf RName
  by (rule exI[of _ "[]"]) simp

record routedef =
  d_path :: "string option"
  d_authed :: "bool option"
  d_before :: "trigger list"
  d_action :: action
  d_after :: "trigger list"
  d_close :: "guard option"

text \<open>The closure \<open>controllerWrapper\<close> captures \<open>currentName\<close> and \<open>def\<close>.\<close>

record wrapper =
  w_name :: string
  w_def :: routedef

record chain =
  re :: "(string \<Rightarrow> bool) option"
  wrappers :: "wrapper list"

record options =
  o_pushState :: bool
  o_authed :: bool
  o_redirectToLogin :: bool

text \<open>
  \<open>EvAction f args\<close>: the action \<open>f\<close> was applied to \<open>args\<close>. \<open>EvTrigger name args\<close>:
  the event dispatcher was handed \<open>name\<close>. \<open>EvNavigate path trigger replace\<close>:
  \<open>router.navigate\<close> was called. \<open>EvClose route name args\<close>: the close-guard found under
  \<open>route\<close> was called for a navigation to \<open>name\<close>.
\<close>

datatype event =
    EvAction string "arg list"
  | EvTrigger string "arg list"
  | EvNavigate string bool bool
  | EvClose string "string option" "arg list option"

record state =
  objectPrototype :: "(string \<times> member) list"
  routes :: "(string \<times> rname) list"
  extendedRoutes :: "(string \<times> string list) list"
  extendedController :: "(string \<times> chain) list"
  closeControllers :: "(string \<times> guard) list"
  cachedTriggers :: "(string \<times> bool) list"
  currentRoutes :: "string list"
  options :: "options option"
  dispatcher :: bool
  router :: bool
  pathname :: string
  hash :: string
  stored :: "string option"
  events :: "event list"

text \<open>
  The state when the script has been loaded and nothing has been called, in an environment
  with the given \<open>Object.prototype\<close> and location.
\<close>

definition init :: "(string \<times> member) list \<Rightarrow> string \<Rightarrow> string \<Rightarrow> state" where
  "init proto pn h = \<lparr> objectPrototype = proto, routes = [], extendedRoutes = [],
     extendedController = [],
     closeControllers = [], cachedTriggers = [], currentRoutes = [], options = None,
     dispatcher = False, router = False, pathname = pn, hash = h, stored = None,
     events = [] \<rparr>"

text \<open>A call either returns a value or throws, and in both cases leaves a state behind.\<close>

datatype 'a outcome = Returned 'a state | Thrown error state

fun state_of :: "'a outcome \<Rightarrow> state" where
  "state_of (Returned a s) = s"
| "state_of (Thrown e s) = s"

fun throws :: "'a outcome \<Rightarrow> bool" where
  "throws (Returned a s) = False"
| "throws (Thrown e s) = True"

fun and_then :: "unit outcome \<Rightarrow> (state \<Rightarrow> 'a outcome) \<Rightarrow> 'a outcome" where
  "and_then (Returned u s) f = f s"
| "and_then (Thrown e s) f = Thrown e s"

text \<open>\<open>_.forEach(xs, f)\<close> for a callback that may throw.\<close>

fun forEach :: "('a \<Rightarrow> state \<Rightarrow> unit outcome) \<Rightarrow> 'a list \<Rightarrow> state \<Rightarrow> unit outcome" where
  "forEach f [] s = Returned () s"
| "forEach f (x # xs) s = and_then (f x s) (forEach f xs)"

text \<open>\<open>obj[k] = v\<close> on the own properties of a table, for a key other than \<open>__proto__\<close>.\<close>

fun jsput :: "'k \<Rightarrow> 'v \<Rightarrow> ('k \<times> 'v) list \<Rightarrow> ('k \<times> 'v) list" where
  "jsput k v [] = [(k, v)]"
| "jsput k v ((k', v') # kvs) = (if k = k' then (k, v) # kvs else (k', v') # jsput k v kvs)"

text \<open>\<open>obj[k]\<close>: the own property, or else the member of \<open>Object.prototype\<close>.\<close>

definition jsget :: "(string \<times> member) list \<Rightarrow> (string \<times> 'v) list \<Rightarrow> string \<Rightarrow> 'v slot" where
  "jsget proto table k =
     (case map_of table k of
        Some v \<Rightarrow> Own v
      | None \<Rightarrow> (case map_of proto k of Some m \<Rightarrow> Inherited m | None \<Rightarrow> Absent))"

text \<open>
  The order in which the own properties of a table are enumerated. A key is an array
  index when it is the decimal numeral, without a leading zero, of a number below
  \<open>2^32 - 1\<close>.
\<close>

definition digit :: "char \<Rightarrow> nat option" where
  "digit c = (let n = (of_char c :: nat) in if 48 \<le> n \<and> n \<le> 57 then Some (n - 48) else None)"

fun digits :: "string \<Rightarrow> nat \<Rightarrow> nat option" where
  "digits [] acc = Some acc"
| "digits (c # cs) acc = (case digit c of None \<Rightarrow> None | Some d \<Rightarrow> digits cs (10 * acc + d))"

definition arrayIndex :: "string \<Rightarrow> nat option" where
  "arrayIndex k =
     (if k = [] \<or> (take 1 k = ''0'' \<and> k \<noteq> ''0'') then None
      else (case digits k 0 of
              None \<Rightarrow> None
            | Some i \<Rightarrow> if i < 4294967295 then Some i else None))"

definition jsEntries :: "(string \<times> 'v) list \<Rightarrow> (string \<times> 'v) list" where
  "jsEntries table =
     sort_key (\<lambda>(k, v). case arrayIndex k of Some i \<Rightarrow> i | None \<Rightarrow> 0)
       (filter (\<lambda>(k, v). arrayIndex k \<noteq> None) table)
     @ filter (\<lambda>(k, v). arrayIndex k = None) table"

definition truthy :: "string option \<Rightarrow> bool" where
  "truthy x = (case x of None \<Rightarrow> False | Some v \<Rightarrow> v \<noteq> [])"

text \<open>\<open>p.charAt(0) == "/" ? p.substring(1) : p\<close>\<close>

definition stripSlash :: "string \<Rightarrow> string" where
  "stripSlash p = (case p of [] \<Rightarrow> [] | c # cs \<Rightarrow> if c = CHR ''/'' then cs else p)"

text \<open>\<open>this.options.log(...)\<close>\<close>

definition log :: "state \<Rightarrow> unit outcome" where
  "log s = (case options s of None \<Rightarrow> Thrown TypeError s | Some opts \<Rightarrow> Returned () s)"

text \<open>
  \<open>self.options.pushState ? window.location.pathname.substring(1)
     : window.location.hash.substring(1)\<close>
\<close>

definition rawPath :: "options \<Rightarrow> state \<Rightarrow> string" where
  "rawPath opts s = (if o_pushState opts then drop 1 (pathname s) else drop 1 (hash s))"

section \<open>Path parser\<close>

fun split :: "char \<Rightarrow> string \<Rightarrow> string list" where
  "split c [] = [[]]"
| "split c (x # xs) =
     (if x = c then [] # split c xs
      else (case split c xs of [] \<Rightarrow> [[x]] | p # ps \<Rightarrow> (x # p) # ps))"

fun toStr :: "arg \<Rightarrow> string" where
  "toStr Undefined = []"
| "toStr (Str v) = v"

fun join :: "string \<Rightarrow> arg list \<Rightarrow> string" where
  "join sep [] = []"
| "join sep [a] = toStr a"
| "join sep (a # b # bs) = toStr a @ sep @ join sep (b # bs)"

text \<open>\<open>args[argIndex]\<close>: \<open>undefined\<close> past the end of the array.\<close>

definition at :: "arg list \<Rightarrow> nat \<Rightarrow> arg" where
  "at args i = (if i < length args then args ! i else Undefined)"

text \<open>
  The callback of \<open>_.map(parts, ...)\<close> with its captured counter \<open>argIndex\<close>, which is
  threaded through the traversal.
\<close>

fun mapParts :: "arg list \<Rightarrow> nat \<Rightarrow> string list \<Rightarrow> arg list" where
  "mapParts args argIndex [] = []"
| "mapParts args argIndex (part # parts) =
     (if take 1 part = '':''
      then at args argIndex # mapParts args (argIndex + 1) parts
      else Str part # mapParts args argIndex parts)"

definition parse :: "string \<Rightarrow> arg list option \<Rightarrow> string" where
  "parse p args =
     (case args of
        None \<Rightarrow> p
      | Some as \<Rightarrow>
          if as = [] then p
          else join ''/'' (mapParts as 0 (split CHR ''/'' p)))"

section \<open>Route registry\<close>

text \<open>
  \<open>this.exists(params)\<close> for \<open>params = {name: nm, path: pth}\<close>, either key possibly
  absent. By name, anything that \<open>extendedController[name]\<close> finds is truthy, an inherited
  member too. By path, the loop stops at the first chain whose matcher accepts the path, so
  the order of the enumeration has no part in the result.
\<close>

definition exists :: "string option \<Rightarrow> string option \<Rightarrow> state \<Rightarrow> bool" where
  "exists nm pth s =
     (if truthy nm then
        (case nm of
           None \<Rightarrow> False
         | Some n \<Rightarrow>
             (case jsget (objectPrototype s) (extendedController s) n of
                Absent \<Rightarrow> False | _ \<Rightarrow> True))
      else if truthy pth then
        (case pth of None \<Rightarrow> False
         | Some p \<Rightarrow>
             list_ex (\<lambda>(name, c). case re c of None \<Rightarrow> False | Some matcher \<Rightarrow> matcher p)
               (extendedController s))
      else False)"

text \<open>
  \<open>this.path(routeName)\<close>: both loops run to their end, so the last entry enumerated that
  lists the name wins; \<open>None\<close> is the result \<open>false\<close>.
\<close>

definition path :: "string option \<Rightarrow> state \<Rightarrow> string option" where
  "path routeName s =
     foldl (\<lambda>result (p, currentRoutes).
              foldl (\<lambda>result route. if Some route = routeName then Some p else result)
                result currentRoutes)
       None (jsEntries (extendedRoutes s))"

text \<open>A property key: \<open>undefined\<close> used as a key is the string \<open>"undefined"\<close>.\<close>

definition pathKey :: "string option \<Rightarrow> string" where
  "pathKey p = (case p of None \<Rightarrow> ''undefined'' | Some k \<Rightarrow> k)"

text \<open>
  The test \<open>if (routes[def.path])\<close>: an own binding to a non-empty name, or any member
  inherited under that key.
\<close>

definition pathTaken :: "string \<Rightarrow> state \<Rightarrow> bool" where
  "pathTaken key s =
     (case jsget (objectPrototype s) (routes s) key of
        Own n \<Rightarrow> nameOf n \<noteq> []
      | Inherited m \<Rightarrow> True
      | Absent \<Rightarrow> False)"

text \<open>
  The value of the variable \<open>name\<close> of \<open>route\<close> once it may have been reassigned: a
  string, or the inherited member that \<open>routes[def.path]\<close> gave.
\<close>

datatype jsname = NameStr string | NameObj member

fun nameKey :: "jsname \<Rightarrow> string" where
  "nameKey (NameStr n) = n"
| "nameKey (NameObj m) = m_key m"

text \<open>
  \<open>this.route(name, def)\<close>. \<open>currentName\<close> is the name given; \<open>name\<close> is reassigned to
  what holds the path when \<open>routes[def.path]\<close> is truthy. \<open>extendedRoutes[def.path].push\<close>
  and \<open>extendedController[name].wrappers.push\<close> throw a \<open>TypeError\<close> unless they find an own
  property: an inherited member has neither a \<open>push\<close> nor \<open>wrappers\<close>. The table
  \<open>controller\<close>, which Backbone calls into, binds every owning name to a function that
  calls \<open>processControllers(name, arguments)\<close>; it is not stored.
\<close>

definition route :: "rname \<Rightarrow> routedef \<Rightarrow> state \<Rightarrow> unit outcome" where
  "route rn def0 s =
     (let currentName = nameOf rn;
          def = def0\<lparr>d_path := map_option stripSlash (d_path def0)\<rparr>;
          key = pathKey (d_path def);
          name = (if pathTaken key s then
                    (case jsget (objectPrototype s) (routes s) key of
                       Own n \<Rightarrow> NameStr (nameOf n)
                     | Inherited m \<Rightarrow> NameObj m
                     | Absent \<Rightarrow> NameStr currentName)
                  else NameStr currentName);
          s1 = (if pathTaken key s then s
                else
                  s\<lparr>extendedRoutes := jsput key [] (extendedRoutes s),
                    extendedController :=
                      jsput currentName \<lparr>re = None, wrappers = []\<rparr> (extendedController s),
                    routes := (if d_path def \<noteq> None then jsput key rn (routes s)
                               else routes s)\<rparr>);
          s2 = (case d_close def of
                  None \<Rightarrow> s1
                | Some g \<Rightarrow> s1\<lparr>closeControllers := jsput currentName g (closeControllers s1)\<rparr>);
          controllerWrapper = \<lparr>w_name = currentName, w_def = def\<rparr>
      in case jsget (objectPrototype s2) (extendedRoutes s2) key of
           Own names \<Rightarrow>
             (let s3 = s2\<lparr>extendedRoutes :=
                          jsput key (names @ [currentName]) (extendedRoutes s2)\<rparr>
              in case jsget (objectPrototype s3) (extendedController s3) (nameKey name) of
                   Own c \<Rightarrow>
                     (let s4 = s3\<lparr>extendedController :=
                                  jsput (nameKey name)
                                    (c\<lparr>wrappers := wrappers c @ [controllerWrapper]\<rparr>)
                                    (extendedController s3)\<rparr>
                      in if name \<noteq> NameStr currentName
                         then Returned ()
                                (s4\<lparr>extendedController :=
                                      jsput currentName
                                        \<lparr>re = None, wrappers = [controllerWrapper]\<rparr>
                                        (extendedController s4)\<rparr>)
                         else Returned () s4)
                 | _ \<Rightarrow> Thrown TypeError s3)
         | _ \<Rightarrow> Thrown TypeError s2)"

text \<open>Registering a list of routes in order, as the function given to \<open>map\<close> does.\<close>

fun routeAll :: "(rname \<times> routedef) list \<Rightarrow> state \<Rightarrow> unit outcome" where
  "routeAll [] s = Returned () s"
| "routeAll ((name, def) # rest) s = and_then (route name def s) (routeAll rest)"

text \<open>
  The loop of \<open>start\<close> that compiles the matchers, over the entries of \<open>routes\<close> as they
  are enumerated. \<open>router._routeToRegExp\<close> belongs to Backbone and is a parameter: it maps
  a path template to the test of its regular expression. When \<open>extendedController[name]\<close>
  is a member inherited from \<open>Object.prototype\<close>, the matcher becomes a property of that
  member, where no lookup of the router finds it.
\<close>

definition compileRoutes :: "(string \<Rightarrow> string \<Rightarrow> bool) \<Rightarrow> state \<Rightarrow> state" where
  "compileRoutes routeToRegExp s =
     foldl (\<lambda>s' (p, name).
              if exists (Some (nameOf name)) None s' then
                (case jsget (objectPrototype s') (extendedController s') (nameOf name) of
                   Own c \<Rightarrow>
                     s'\<lparr>extendedController :=
                          jsput (nameOf name) (c\<lparr>re := Some (routeToRegExp p)\<rparr>)
                            (extendedController s')\<rparr>
                 | _ \<Rightarrow> s')
              else s')
       s (jsEntries (routes s))"

text \<open>
  \<open>this.start(app, options)\<close> up to the point where it turns to \<open>Backbone.history\<close>,
  which is taken as started already: \<open>opts\<close> is \<open>defaultOptions\<close> extended by the
  options given, \<open>app\<close> says whether an application object was passed. Without a
  dispatcher to take, or with one set beforehand, the call of the undefined \<open>this.log\<close>
  is a \<open>TypeError\<close>. Building the router object is Backbone's part; of it the state keeps
  that \<open>router\<close> is set.
\<close>

definition start :: "(string \<Rightarrow> string \<Rightarrow> bool) \<Rightarrow> bool \<Rightarrow> options \<Rightarrow> state \<Rightarrow> unit outcome" where
  "start routeToRegExp app opts s =
     (let s1 = s\<lparr>options := Some opts\<rparr>
      in if \<not> dispatcher s1 \<and> app
         then Returned () (compileRoutes routeToRegExp (s1\<lparr>dispatcher := True, router := True\<rparr>))
         else Thrown TypeError s1)"

section \<open>Dispatch pipeline\<close>

definition withOptions :: "state \<Rightarrow> (options \<Rightarrow> 'a outcome) \<Rightarrow> 'a outcome" where
  "withOptions s f = (case options s of None \<Rightarrow> Thrown TypeError s | Some opts \<Rightarrow> f opts)"

text \<open>\<open>this.storeCurrentRoute()\<close>, with \<open>localStorage\<close> present.\<close>

definition storeCurrentRoute :: "state \<Rightarrow> unit outcome" where
  "storeCurrentRoute s =
     withOptions s (\<lambda>opts.
       and_then (log s) (\<lambda>s1. Returned () (s1\<lparr>stored := Some (rawPath opts s1)\<rparr>)))"

text \<open>
  The test at the head of \<open>controllerWrapper\<close>: whether the entry goes on, or which
  fallback route it dispatches.
\<close>

datatype gate = Pass | ToLogin | To403

definition authGate :: "routedef \<Rightarrow> state \<Rightarrow> gate outcome" where
  "authGate def s =
     (case d_authed def of
        None \<Rightarrow> Returned Pass s
      | Some a \<Rightarrow>
          withOptions s (\<lambda>opts.
            if (a \<and> \<not> o_authed opts) \<or> (\<not> a \<and> o_authed opts) then
              (if o_redirectToLogin opts \<and> \<not> o_authed opts then Returned ToLogin s
               else Returned To403 s)
            else Returned Pass s))"

text \<open>
  \<open>this.findCachedTrigger(trigger)\<close>: the \<open>done\<close> flag of the first record of that name,
  which is created (with \<open>done\<close> undefined) when there is none.
\<close>

definition findCachedTrigger :: "string \<Rightarrow> state \<Rightarrow> bool \<times> state" where
  "findCachedTrigger name s =
     (case find (\<lambda>item. fst item = name) (cachedTriggers s) of
        Some item \<Rightarrow> (snd item, s)
      | None \<Rightarrow> (False, s\<lparr>cachedTriggers := cachedTriggers s @ [(name, False)]\<rparr>))"

text \<open>\<open>cache.done = true\<close> on the record that \<open>findCachedTrigger\<close> returned.\<close>

fun markDone :: "string \<Rightarrow> (string \<times> bool) list \<Rightarrow> (string \<times> bool) list" where
  "markDone name [] = []"
| "markDone name ((k, d) # rest) =
     (if k = name then (k, True) # rest else (k, d) # markDone name rest)"

definition clearCache :: "state \<Rightarrow> state" where
  "clearCache s = s\<lparr>cachedTriggers := []\<rparr>"

text \<open>\<open>this.dispatcher.trigger(name, args...)\<close>; \<open>this.dispatcher\<close> may still be \<open>null\<close>.\<close>

definition dispatch :: "string \<Rightarrow> arg list \<Rightarrow> state \<Rightarrow> unit outcome" where
  "dispatch name args s =
     (if dispatcher s then Returned () (s\<lparr>events := events s @ [EvTrigger name args]\<rparr>)
      else Thrown TypeError s)"

text \<open>\<open>def.action.apply(self, args)\<close> when \<open>def.action\<close> is a function.\<close>

definition runAction :: "action \<Rightarrow> arg list \<Rightarrow> state \<Rightarrow> unit outcome" where
  "runAction a args s =
     (case a of
        Invoke f \<Rightarrow> Returned () (s\<lparr>events := events s @ [EvAction f args]\<rparr>)
      | _ \<Rightarrow> Returned () s)"

text \<open>
  The four functions call each other without bound (an alias of itself, a trigger that names
  its own route). The first argument bounds the depth of the call stack: each call takes one
  frame, and with none left the call ends as the engine's stack overflow does.

  In \<open>processControllers\<close>, \<open>extendedController[name].wrappers\<close> is a \<open>TypeError\<close> when
  nothing is found under the name; on a member inherited from \<open>Object.prototype\<close> it is
  \<open>undefined\<close>, over which \<open>_.forEach\<close> does nothing.
\<close>

function (sequential) processControllers :: "nat \<Rightarrow> string \<Rightarrow> arg list option \<Rightarrow> bool \<Rightarrow> state \<Rightarrow> unit outcome"
  and controllerWrapper :: "nat \<Rightarrow> wrapper \<Rightarrow> arg list \<Rightarrow> bool \<Rightarrow> state \<Rightarrow> unit outcome"
  and processTriggers :: "nat \<Rightarrow> trigger list \<Rightarrow> state \<Rightarrow> unit outcome"
  and processTrigger :: "nat \<Rightarrow> trigger \<Rightarrow> state \<Rightarrow> unit outcome"
where
  "processControllers 0 name args trigger s = Thrown StackOverflow s"
| "processControllers (Suc n) name args trigger s =
     (let args = (case args of None \<Rightarrow> [] | Some as \<Rightarrow> as)
      in case jsget (objectPrototype s) (extendedController s) name of
           Own c \<Rightarrow>
             forEach (\<lambda>callback. controllerWrapper n callback args trigger) (wrappers c) s
         | Inherited m \<Rightarrow> Returned () s
         | Absent \<Rightarrow> Thrown TypeError s)"
| "controllerWrapper 0 w args trigger s = Thrown StackOverflow s"
| "controllerWrapper (Suc n) w args trigger s =
     (let currentName = w_name w; def = w_def w;
          s1 = (if \<not> trigger then s\<lparr>currentRoutes := currentRoutes s @ [currentName]\<rparr> else s)
      in case authGate def s1 of
           Thrown e s' \<Rightarrow> Thrown e s'
         | Returned ToLogin s' \<Rightarrow>
             and_then (log s') (\<lambda>s2.
             and_then (storeCurrentRoute s2) (\<lambda>s3.
               processControllers n ''login'' None False s3))
         | Returned To403 s' \<Rightarrow>
             and_then (log s') (\<lambda>s2.
             withOptions s2 (\<lambda>opts.
               processControllers n ''403'' (Some [Str (rawPath opts s2)]) False s2))
         | Returned Pass s' \<Rightarrow>
             (case d_action def of
                AliasTo target \<Rightarrow>
                  and_then (log s') (\<lambda>s2. processControllers n target (Some args) True s2)
              | _ \<Rightarrow>
                  and_then (log s') (\<lambda>s2.
                  and_then (if d_before def \<noteq> [] then processTriggers n (d_before def) s2
                            else Returned () s2) (\<lambda>s3.
                  and_then (runAction (d_action def) args s3) (\<lambda>s4.
                    if d_after def \<noteq> [] then processTriggers n (d_after def) s4
                    else Returned () s4)))))"
| "processTriggers 0 triggers s = Thrown StackOverflow s"
| "processTriggers (Suc n) triggers s = forEach (\<lambda>trigger. processTrigger n trigger) triggers s"
| "processTrigger 0 trigger s = Thrown StackOverflow s"
| "processTrigger (Suc n) (TObj name targs cache) s =
     (let (done, s1) = (if cache then findCachedTrigger name s else (False, s))
      in if cache \<and> done then log s1
         else
           (let s2 = (if cache then s1\<lparr>cachedTriggers := markDone name (cachedTriggers s1)\<rparr>
                      else s1)
            in if exists (Some name) None s2 then processControllers n name targs True s2
               else dispatch name (case targs of None \<Rightarrow> [Undefined] | Some as \<Rightarrow> as) s2))"
| "processTrigger (Suc n) (TName name) s =
     (if exists (Some name) None s then processControllers n name None True s
      else dispatch name [] s)"
  by pat_completeness auto

termination
  by (relation "measure (\<lambda>x. case x of
        Inl (Inl (n, _)) \<Rightarrow> n | Inl (Inr (n, _)) \<Rightarrow> n
      | Inr (Inl (n, _)) \<Rightarrow> n | Inr (Inr (n, _)) \<Rightarrow> n)") auto

section \<open>Navigation controller\<close>

text \<open>
  The first parameter of \<open>go\<close>: a route name (or \<open>undefined\<close>), or an object
  \<open>{name, path, args}\<close> with any of the keys absent.
\<close>

datatype target = Name "string option" | Route "string option" "string option" "arg list option"

text \<open>
  \<open>closeControllers[route]\<close> when \<open>_.isFunction\<close> accepts it, for the route
  \<open>current\<close> of the loop: the guard registered for it, or a function inherited from
  \<open>Object.prototype\<close>.
\<close>

definition closeController ::
    "state \<Rightarrow> string \<Rightarrow> (string option \<Rightarrow> arg list option \<Rightarrow> navopts \<Rightarrow> bool option) option" where
  "closeController s current =
     (case jsget (objectPrototype s) (closeControllers s) current of
        Own close \<Rightarrow> Some (\<lambda>name args opts. Some (close name args opts))
      | Inherited m \<Rightarrow> m_call m
      | Absent \<Rightarrow> None)"

text \<open>
  The loop over \<open>this.currentRoutes\<close>: every guard that runs overwrites \<open>continueProcess\<close>;
  a guard that throws ends the loop and \<open>go\<close> with it.
\<close>

fun runCloseControllers ::
    "string option \<Rightarrow> arg list option \<Rightarrow> navopts \<Rightarrow> string list \<Rightarrow> bool \<Rightarrow> state \<Rightarrow> bool outcome" where
  "runCloseControllers name args opts [] continueProcess s = Returned continueProcess s"
| "runCloseControllers name args opts (current # rest) continueProcess s =
     (case closeController s current of
        None \<Rightarrow> runCloseControllers name args opts rest continueProcess s
      | Some close \<Rightarrow>
          if name \<noteq> Some current then
            (let s1 = s\<lparr>events := events s @ [EvClose current name args]\<rparr>
             in case close name args opts of
                  None \<Rightarrow> Thrown TypeError s1
                | Some result \<Rightarrow> runCloseControllers name args opts rest result s1)
          else runCloseControllers name args opts rest continueProcess s)"

text \<open>
  \<open>router.navigate(path, options)\<close>; \<open>router\<close> is \<open>null\<close> until \<open>start\<close> has built
  it. The call goes to Backbone: the state keeps that it was made, with the options as
  \<open>go\<close> has completed them.
\<close>

definition navigate :: "string \<Rightarrow> navopts \<Rightarrow> state \<Rightarrow> unit outcome" where
  "navigate p opts s =
     (if router s then
        Returned ()
          (s\<lparr>events := events s @
               [EvNavigate p (case n_trigger opts of None \<Rightarrow> True | Some b \<Rightarrow> b)
                  (case n_replace opts of None \<Rightarrow> False | Some b \<Rightarrow> b)]\<rparr>)
      else Thrown TypeError s)"

text \<open>The branch of \<open>go\<close> for a route that does not exist; it ends without a \<open>return\<close>.\<close>

definition goNotFound :: "nat \<Rightarrow> state \<Rightarrow> jsret outcome" where
  "goNotFound n s =
     and_then (log s) (\<lambda>s1.
     withOptions s1 (\<lambda>opts.
     and_then (processControllers n ''404'' (Some [Str (rawPath opts s1)]) False s1)
       (Returned JUndefined)))"

text \<open>The branch of \<open>go\<close> for an existing route: guards, then the navigation.\<close>

definition goProceed ::
    "string option \<Rightarrow> string option \<Rightarrow> arg list option \<Rightarrow> navopts \<Rightarrow> state \<Rightarrow> jsret outcome" where
  "goProceed name path0 args opts s =
     (case runCloseControllers name args opts (currentRoutes s) True s of
        Thrown e s' \<Rightarrow> Thrown e s'
      | Returned continueProcess s' \<Rightarrow>
          if \<not> continueProcess then Returned JFalse s'
          else
            (let s1 = s'\<lparr>currentRoutes := []\<rparr>
             in if \<not> truthy path0 then
                  (case path name s1 of
                     None \<Rightarrow>
                       (case args of
                          None \<Rightarrow> Returned JTrue s1
                        | Some as \<Rightarrow>
                            if as = [] then Returned JTrue s1 else Thrown TypeError s1)
                   | Some p \<Rightarrow> and_then (navigate (parse p args) opts s1) (Returned JTrue))
                else
                  (case path0 of
                     None \<Rightarrow> Returned JTrue s1
                   | Some p \<Rightarrow> and_then (navigate p opts s1) (Returned JTrue))))"

datatype branch = MissingParameters | NotFound | Proceed

definition goBranch :: "string option \<Rightarrow> string option \<Rightarrow> state \<Rightarrow> branch" where
  "goBranch name path0 s =
     (if \<not> truthy name \<and> \<not> truthy path0 then MissingParameters
      else if (truthy name \<and> \<not> exists name None s) \<or> (truthy path0 \<and> \<not> exists None path0 s)
      then NotFound
      else Proceed)"

text \<open>What the head of \<open>go\<close> takes from its first two parameters.\<close>

fun targetName :: "target \<Rightarrow> string option" where
  "targetName (Name x) = x"
| "targetName (Route nm p a) = nm"

fun targetPath :: "target \<Rightarrow> string option" where
  "targetPath (Name x) = None"
| "targetPath (Route nm p a) = map_option stripSlash p"

fun targetArgs :: "target \<Rightarrow> arg list option \<Rightarrow> arg list option" where
  "targetArgs (Name x) args = args"
| "targetArgs (Route nm p a) args = (case a of None \<Rightarrow> args | Some as \<Rightarrow> Some as)"

definition go :: "nat \<Rightarrow> target \<Rightarrow> arg list option \<Rightarrow> navopts \<Rightarrow> state \<Rightarrow> jsret outcome" where
  "go n target args0 opts s =
     (let name = targetName target;
          path0 = targetPath target;
          args = targetArgs target args0
      in case goBranch name path0 s of
           MissingParameters \<Rightarrow> and_then (log s) (Returned JFalse)
         | NotFound \<Rightarrow> goNotFound n s
         | Proceed \<Rightarrow> goProceed name path0 args opts s)"

section \<open>Reference definitions for the statements\<close>

text \<open>
  The substitution as the specification words it: walk the segments; a segment that begins
  with a colon takes the next unused argument, any other segment stays. When the arguments
  have run out a parameter segment becomes \<open>undefined\<close>.
\<close>

fun substitute :: "string list \<Rightarrow> arg list \<Rightarrow> arg list" where
  "substitute [] args = []"
| "substitute (seg # segs) args =
     (if take 1 seg = '':''
      then (case args of
              [] \<Rightarrow> Undefined # substitute segs []
            | a # rest \<Rightarrow> a # substitute segs rest)
      else Str seg # substitute segs args)"

text \<open>Whether the trigger cache holds a record of that name that is marked done.\<close>

definition cacheDone :: "string \<Rightarrow> state \<Rightarrow> bool" where
  "cacheDone name s =
     (case find (\<lambda>item. fst item = name) (cachedTriggers s) of
        None \<Rightarrow> False | Some item \<Rightarrow> snd item)"

text \<open>
  What the dispatch pipeline never writes: the state without the trigger cache, the
  CurrentRouteStack, the stored route and the events.
\<close>

definition static :: "state \<Rightarrow> state" where
  "static s = s\<lparr>cachedTriggers := [], currentRoutes := [], stored := None, events := []\<rparr>"

text \<open>
  How a state can change while the pipeline runs: the static part stays, the
  CurrentRouteStack and the events are only appended to, no appended event hands the
  dispatcher a name that \<open>exists\<close> accepts, and a cache record that is done stays done.
\<close>

definition evolves :: "state \<Rightarrow> state \<Rightarrow> bool" where
  "evolves s s' =
     (static s' = static s
      \<and> (\<exists>rs. currentRoutes s' = currentRoutes s @ rs)
      \<and> (\<exists>evs. events s' = events s @ evs
             \<and> (\<forall>m a. EvTrigger m a \<in> set evs \<longrightarrow> \<not> exists (Some m) None s))
      \<and> (\<forall>name. cacheDone name s \<longrightarrow> cacheDone name s'))"

text \<open>
  \<open>Object.prototype\<close> as ECMAScript with its Annex B defines it, each function seen through
  the call \<open>f.call(self, name, args, options)\<close> that \<open>go\<close> makes, \<open>self\<close> being the
  window. The four lists name the properties of the window: its own ones, the enumerable
  ones among them, and those that it or its prototypes hold with a getter or with a setter.
  \<open>Object(name)\<close>, \<open>toString\<close>, \<open>toLocaleString\<close> and \<open>valueOf\<close> return an object or a
  non-empty string; \<open>isPrototypeOf\<close> is false of a string and of \<open>undefined\<close>;
  \<open>__defineGetter__\<close> and \<open>__defineSetter__\<close> throw, since \<open>args\<close> is no function.
\<close>

definition builtin :: "string \<Rightarrow> (string option \<Rightarrow> bool option) \<Rightarrow> string \<times> member" where
  "builtin k f =
     (k, \<lparr>m_key = ''function '' @ (if k = ''constructor'' then ''Object'' else k)
                   @ ''() { [native code] }'',
          m_call = Some (\<lambda>name args opts. f name)\<rparr>)"

definition browserPrototype ::
    "string list \<Rightarrow> string list \<Rightarrow> string list \<Rightarrow> string list \<Rightarrow> (string \<times> member) list" where
  "browserPrototype own enumerable getters setters =
     [builtin ''constructor'' (\<lambda>name. Some True),
      builtin ''__defineGetter__'' (\<lambda>name. None),
      builtin ''__defineSetter__'' (\<lambda>name. None),
      builtin ''hasOwnProperty'' (\<lambda>name. Some (pathKey name \<in> set own)),
      builtin ''__lookupGetter__'' (\<lambda>name. Some (pathKey name \<in> set getters)),
      builtin ''__lookupSetter__'' (\<lambda>name. Some (pathKey name \<in> set setters)),
      builtin ''isPrototypeOf'' (\<lambda>name. Some False),
      builtin ''propertyIsEnumerable'' (\<lambda>name. Some (pathKey name \<in> set enumerable)),
      builtin ''toString'' (\<lambda>name. Some True),
      builtin ''valueOf'' (\<lambda>name. Some True),
      builtin ''toLocaleString'' (\<lambda>name. Some True),
      (''__proto__'', \<lparr>m_key = ''[object Object]'', m_call = None\<rparr>)]"

text \<open>The prototype of the examples: a window with a few properties.\<close>

definition examplePrototype :: "(string \<times> member) list" where
  "examplePrototype =
     browserPrototype
       [''undefined'', ''window'', ''self'', ''location'', ''localStorage'', ''Backbone'', ''_'']
       [''window'', ''self'', ''location'', ''localStorage'', ''Backbone'', ''_'']
       [''window'', ''self'', ''location'', ''localStorage'']
       [''self'', ''location'']"

text \<open>A router started with the default options and no route declared.\<close>

definition exampleOptions :: options where
  "exampleOptions = \<lparr>o_pushState = True, o_authed = False, o_redirectToLogin = False\<rparr>"

definition exampleStarted :: state where
  "exampleStarted =
     state_of (start (\<lambda>template p. p = template) True exampleOptions
       (init examplePrototype ''/'' []))"



text \<open>\<open>go\<close> called without its third parameter.\<close>

definition noOpts :: navopts where
  "noOpts = \<lparr>n_trigger = None, n_replace = None\<rparr>"

text \<open>The definition \<open>{path: p}\<close>.\<close>

definition plainDef :: "string \<Rightarrow> routedef" where
  "plainDef p = \<lparr>d_path = Some p, d_authed = None, d_before = [], d_action = NoAction,
     d_after = [], d_close = None\<rparr>"

text \<open>
  A router at \<open>/nowhere\<close> whose only route is \<open>404\<close>, with an action, declared before
  \<open>start\<close>.
\<close>

definition exampleNotFound :: state where
  "exampleNotFound =
     state_of (start (\<lambda>template p. p = template) True exampleOptions
       (state_of (route (RName ''404'') ((plainDef ''/lost'')\<lparr>d_action := Invoke ''notFound''\<rparr>)
          (init examplePrototype ''/nowhere'' []))))"

text \<open>
  The close-guards that a navigation to \<open>name\<close> calls when none of them throws, each with
  the route under which it was found, in the order of the CurrentRouteStack: for every
  route of the stack that differs from the target name, the guard registered for it or the
  function that \<open>Object.prototype\<close> holds under its name.
\<close>

definition guardsRun ::
    "string option \<Rightarrow> state
       \<Rightarrow> (string \<times> (string option \<Rightarrow> arg list option \<Rightarrow> navopts \<Rightarrow> bool option)) list" where
  "guardsRun name s =
     concat (map (\<lambda>route. case closeController s route of
                    None \<Rightarrow> []
                  | Some close \<Rightarrow> if name \<noteq> Some route then [(route, close)] else [])
               (currentRoutes s))"

text \<open>The record that the calls of these guards leave.\<close>

definition closeEvents :: "string option \<Rightarrow> arg list option \<Rightarrow> state \<Rightarrow> event list" where
  "closeEvents name args s = map (\<lambda>(route, close). EvClose route name args) (guardsRun name s)"

text \<open>
  Two routes \<open>a\<close> and \<open>b\<close> on the path \<open>/x\<close>, each with a close-guard that returns
  the given constant, and a route \<open>c\<close> on \<open>/y\<close>; the router is started and the chain of
  \<open>/x\<close> has run, so that the CurrentRouteStack is \<open>[a, b]\<close>.
\<close>

definition exampleGuards :: "bool \<Rightarrow> bool \<Rightarrow> state" where
  "exampleGuards ga gb =
     state_of (processControllers 2 ''a'' None False
       (state_of (start (\<lambda>template p. p = template) True exampleOptions
          (state_of (routeAll
             [(RName ''a'', (plainDef ''/x'')\<lparr>d_close := Some (\<lambda>name args opts. ga)\<rparr>),
              (RName ''b'', (plainDef ''/x'')\<lparr>d_close := Some (\<lambda>name args opts. gb)\<rparr>),
              (RName ''c'', plainDef ''/y'')]
             (init examplePrototype ''/x'' []))))))"

text \<open>
  The same with a second route of the given name that has no close-guard, the guard of
  \<open>a\<close> returning \<open>false\<close>: the CurrentRouteStack holds \<open>a\<close> and that name.
\<close>

definition exampleInherited :: "string \<Rightarrow> state" where
  "exampleInherited b =
     state_of (processControllers 2 ''a'' None False
       (state_of (start (\<lambda>template p. p = template) True exampleOptions
          (state_of (routeAll
             [(RName ''a'', (plainDef ''/x'')\<lparr>d_close := Some (\<lambda>name args opts. False)\<rparr>),
              (RName b, plainDef ''/x''),
              (RName ''c'', plainDef ''/y'')]
             (init examplePrototype ''/x'' []))))))"

text \<open>
  The entry that \<open>route(name, def)\<close> appends: the closure over the name and the
  definition, whose path has lost its leading slash.
\<close>

definition entry :: "string \<Rightarrow> routedef \<Rightarrow> wrapper" where
  "entry name def = \<lparr>w_name = name, w_def = def\<lparr>d_path := map_option stripSlash (d_path def)\<rparr>\<rparr>"

text \<open>
  The key under which \<open>route\<close> looks the definition's path up.
\<close>

definition routeKey :: "routedef \<Rightarrow> string" where
  "routeKey def = pathKey (map_option stripSlash (d_path def))"

text \<open>
  \<open>closeControllers\<close> after \<open>route(name, def)\<close>.
\<close>

definition withClose :: "string \<Rightarrow> routedef \<Rightarrow> state \<Rightarrow> (string \<times> guard) list" where
  "withClose name def s =
     (case d_close def of None \<Rightarrow> closeControllers s
      | Some g \<Rightarrow> jsput name g (closeControllers s))"

text \<open>
  The state in which the rest of an entry runs: the first statement of
  \<open>controllerWrapper\<close> has pushed \<open>currentName\<close> unless the call is trigger-originated.
\<close>

definition entered :: "bool \<Rightarrow> wrapper \<Rightarrow> state \<Rightarrow> state" where
  "entered trigger w s =
     (if trigger then s else s\<lparr>currentRoutes := currentRoutes s @ [w_name w]\<rparr>)"

text \<open>
  The same entry with other \<open>before\<close> triggers, another action and other \<open>after\<close>
  triggers.
\<close>

definition withSteps :: "trigger list \<Rightarrow> action \<Rightarrow> trigger list \<Rightarrow> wrapper \<Rightarrow> wrapper" where
  "withSteps b a af w = w\<lparr>w_def := (w_def w)\<lparr>d_before := b, d_action := a, d_after := af\<rparr>\<rparr>"


text \<open>The handler chain that the registry holds for a name.\<close>

definition chainOf :: "string \<Rightarrow> state \<Rightarrow> wrapper list option" where
  "chainOf name s = map_option wrappers (map_of (extendedController s) name)"

text \<open>
  The path \<open>k\<close> is bound to \<open>owner\<close>, whose chain begins with the entry \<open>w\<close>.
\<close>

definition owns :: "string \<Rightarrow> rname \<Rightarrow> wrapper \<Rightarrow> state \<Rightarrow> bool" where
  "owns k owner w s =
     (map_of (routes s) k = Some owner \<and> map_of (extendedRoutes s) k \<noteq> None
      \<and> (\<exists>c ws. map_of (extendedController s) (nameOf owner) = Some c \<and> wrappers c = w # ws))"

text \<open>
  What \<open>routes[key]\<close> gives when it is truthy: the owning name, or the member inherited
  under the key.
\<close>

definition holder :: "string \<Rightarrow> state \<Rightarrow> jsname" where
  "holder key s =
     (case jsget (objectPrototype s) (routes s) key of
        Own n \<Rightarrow> NameStr (nameOf n)
      | Inherited m \<Rightarrow> NameObj m
      | Absent \<Rightarrow> NameStr [])"

text \<open>No chain has a compiled matcher.\<close>

definition uncompiled :: "state \<Rightarrow> bool" where
  "uncompiled s = list_all (\<lambda>(name, c). re c = None) (extendedController s)"

text \<open>
  The states a router can be in while \<open>start\<close> has not been called: the script has been
  loaded, and routes have been declared, navigations asked for, chains and triggers
  dispatched, the current route stored and the trigger cache cleared, in any order.
\<close>

inductive beforeStart :: "state \<Rightarrow> bool" where
  loaded: "beforeStart (init proto pn h)"
| declared: "beforeStart s \<Longrightarrow> beforeStart (state_of (route name def s))"
| navigated: "beforeStart s \<Longrightarrow> beforeStart (state_of (go n target args opts s))"
| dispatched: "beforeStart s \<Longrightarrow> beforeStart (state_of (processControllers n name pargs trigger s))"
| triggered: "beforeStart s \<Longrightarrow> beforeStart (state_of (processTriggers n triggers s))"
| triggered_one: "beforeStart s \<Longrightarrow> beforeStart (state_of (processTrigger n t s))"
| stored_route: "beforeStart s \<Longrightarrow> beforeStart (state_of (storeCurrentRoute s))"
| cleared: "beforeStart s \<Longrightarrow> beforeStart (clearCache s)"

text \<open>
  The routes of an example application: \<open>home\<close> at the root, \<open>admin\<close> for logged-in
  users only, the fallback \<open>403\<close>, an alias \<open>index\<close> of \<open>home\<close> with triggers of its own,
  and an alias \<open>vault\<close> of \<open>home\<close> for logged-in users only.
\<close>

definition homeDef :: routedef where
  "homeDef = (plainDef ''/'')\<lparr>d_before := [TName ''core:display''], d_action := Invoke ''showHome''\<rparr>"

definition adminDef :: routedef where
  "adminDef = (plainDef ''/admin'')\<lparr>d_authed := Some True, d_before := [TName ''core:display''],
                 d_action := Invoke ''showAdmin'', d_after := [TName ''core:post'']\<rparr>"

definition forbiddenDef :: routedef where
  "forbiddenDef = (plainDef ''/403'')\<lparr>d_action := Invoke ''forbidden''\<rparr>"

definition indexDef :: routedef where
  "indexDef = (plainDef ''/index'')\<lparr>d_before := [TName ''index:before''],
                 d_action := AliasTo ''home'', d_after := [TName ''index:after'']\<rparr>"

definition vaultDef :: routedef where
  "vaultDef = (plainDef ''/vault'')\<lparr>d_authed := Some True, d_action := AliasTo ''home''\<rparr>"

text \<open>
  The example application, declared and then started logged out, at \<open>/admin\<close>.
\<close>

definition exampleApp :: state where
  "exampleApp =
     state_of (start (\<lambda>template p. p = template) True exampleOptions
       (state_of (routeAll
          [(RName ''home'', homeDef), (RName ''admin'', adminDef), (RName ''403'', forbiddenDef),
           (RName ''index'', indexDef), (RName ''vault'', vaultDef)]
          (init examplePrototype ''/admin'' []))))"

text \<open>
  Three routes declared on one path, the router not started.
\<close>

definition exampleShared :: state where
  "exampleShared =
     state_of (routeAll
       [(RName ''a'', (plainDef ''/x'')\<lparr>d_action := Invoke ''first''\<rparr>),
        (RName ''c'', plainDef ''/x''),
        (RName ''b'', (plainDef ''/x'')\<lparr>d_action := Invoke ''second''\<rparr>)]
       (init examplePrototype ''/x'' []))"

text \<open>The same router started, at \<open>/x\<close>.\<close>

definition exampleSharedStarted :: state where
  "exampleSharedStarted =
     state_of (start (\<lambda>template p. p = template) True exampleOptions exampleShared)"


section \<open>Properties of the path parser\<close>

lemma at_drop: "at args i = (case drop i args of [] \<Rightarrow> Undefined | a # rest \<Rightarrow> a)"
  by (simp add: at_def hd_drop_conv_nth split: list.splits) (metis nth_via_drop)

lemma mapParts_substitute: "mapParts args i parts = substitute parts (drop i args)"
proof (induction parts arbitrary: i)
  case Nil
  show ?case by simp
next
  case (Cons part parts)
  note IH = Cons.IH
  show ?case
  proof (cases "drop i args")
    case Nil
    then have "drop (Suc i) args = []" by simp
    then show ?thesis using IH[of "Suc i"] IH[of i] Nil by (simp add: at_drop)
  next
    case (Cons a rest)
    then have "drop (Suc i) args = rest" by (metis drop_Suc tl_drop list.sel(3))
    then show ?thesis using IH[of "Suc i"] IH[of i] Cons by (simp add: at_drop)
  qed
qed

lemma split_nonempty: "split c xs \<noteq> []"
  by (induction xs) (auto split: list.splits)

text \<open>Splitting and joining again gives the template back.\<close>

lemma join_split: "join [c] (map Str (split c xs)) = xs"
proof (induction xs)
  case Nil
  show ?case by simp
next
  case (Cons x xs)
  obtain p ps where sp: "split c xs = p # ps"
    using split_nonempty[of c xs] by (cases "split c xs") auto
  show ?case using Cons sp by (cases ps) auto
qed

text \<open>
  C8. \<open>parse(template, args)\<close> splits the template on the slash, replaces every segment
  that begins with a colon by the next unused element of \<open>args\<close>, taken from left to
  right, and leaves the other segments as they are; with an empty \<open>args\<close> the template
  comes back unchanged. \<open>parse("/user/:id/edit", ["42"])\<close> is \<open>"/user/42/edit"\<close> and
  \<open>parse("/home", [])\<close> is \<open>"/home"\<close>.
\<close>

theorem parse_substitutes:
  "parse template (Some args) =
     (if args = [] then template
      else join ''/'' (substitute (split CHR ''/'' template) args))
   \<and> parse ''/user/:id/edit'' (Some [Str ''42'']) = ''/user/42/edit''
   \<and> parse ''/home'' (Some []) = ''/home''"
  by (simp add: parse_def mapParts_substitute)

section \<open>What the dispatch pipeline leaves unchanged\<close>

lemma static_extendedController: "static s' = static s \<Longrightarrow> extendedController s' = extendedController s"
  by (drule arg_cong[where f = extendedController]) (simp add: static_def)

lemma static_objectPrototype: "static s' = static s \<Longrightarrow> objectPrototype s' = objectPrototype s"
  by (drule arg_cong[where f = objectPrototype]) (simp add: static_def)

lemma exists_static:
  assumes "static s' = static s"
  shows "exists nm p s' = exists nm p s"
  unfolding exists_def static_extendedController[OF assms] static_objectPrototype[OF assms] ..

lemma evolves_refl: "evolves s s"
  by (simp add: evolves_def)

lemma evolves_trans:
  assumes "evolves s s1" and "evolves s1 s2"
  shows "evolves s s2"
proof -
  from assms(1) obtain evs rs where 1: "static s1 = static s" "events s1 = events s @ evs"
      "\<And>m a. EvTrigger m a \<in> set evs \<Longrightarrow> \<not> exists (Some m) None s"
      "\<And>name. cacheDone name s \<Longrightarrow> cacheDone name s1"
      and r1: "currentRoutes s1 = currentRoutes s @ rs"
    unfolding evolves_def by blast
  from assms(2) obtain evs' rs' where 2: "static s2 = static s1" "events s2 = events s1 @ evs'"
      "\<And>m a. EvTrigger m a \<in> set evs' \<Longrightarrow> \<not> exists (Some m) None s1"
      "\<And>name. cacheDone name s1 \<Longrightarrow> cacheDone name s2"
      and r2: "currentRoutes s2 = currentRoutes s1 @ rs'"
    unfolding evolves_def by blast
  have r: "\<exists>rs. currentRoutes s2 = currentRoutes s @ rs" using r1 r2 by simp
  have ex: "\<And>m. exists (Some m) None s1 = exists (Some m) None s"
    using 1(1) by (rule exists_static)
  have a: "static s2 = static s" using 1(1) 2(1) by simp
  have b: "events s2 = events s @ (evs @ evs')" using 1(2) 2(2) by simp
  have c: "\<forall>m a. EvTrigger m a \<in> set (evs @ evs') \<longrightarrow> \<not> exists (Some m) None s"
    using 1(3) 2(3) ex by auto
  have d: "\<forall>name. cacheDone name s \<longrightarrow> cacheDone name s2" using 1(4) 2(4) by blast
  show ?thesis unfolding evolves_def using a r b c d by blast
qed

lemma evolves_and_then:
  assumes "evolves s (state_of m)" and "\<And>s1. evolves s1 (state_of (f s1))"
  shows "evolves s (state_of (and_then m f))"
proof (cases m)
  case (Returned u s1)
  have "evolves s s1" using assms(1) Returned by simp
  then have "evolves s (state_of (f s1))" using assms(2) by (rule evolves_trans)
  then show ?thesis using Returned by simp
next
  case (Thrown e s1)
  then show ?thesis using assms(1) by simp
qed

lemma evolves_forEach:
  assumes "\<And>x s1. evolves s1 (state_of (f x s1))"
  shows "evolves s (state_of (forEach f xs s))"
proof (induction xs arbitrary: s)
  case Nil
  show ?case by (simp add: evolves_refl)
next
  case (Cons x xs)
  have "evolves s (state_of (and_then (f x s) (forEach f xs)))"
    using assms Cons by (rule evolves_and_then)
  then show ?case by simp
qed

lemma evolves_log: "evolves s (state_of (log s))"
  by (simp add: log_def evolves_refl split: option.splits)

lemma evolves_withOptions: "(\<And>opts. evolves s (state_of (f opts))) \<Longrightarrow> evolves s (state_of (withOptions s f))"
  by (simp add: withOptions_def evolves_refl split: option.splits)

lemma evolves_stored: "evolves s (s\<lparr>stored := x\<rparr>)"
  by (simp add: evolves_def static_def cacheDone_def)

lemma evolves_storeCurrentRoute: "evolves s (state_of (storeCurrentRoute s))"
  unfolding storeCurrentRoute_def
  by (intro evolves_withOptions evolves_and_then evolves_log) (simp add: evolves_stored)

lemma evolves_runAction: "evolves s (state_of (runAction a args s))"
  by (cases a) (simp_all add: runAction_def evolves_def static_def cacheDone_def)

lemma evolves_dispatch: "\<not> exists (Some name) None s \<Longrightarrow> evolves s (state_of (dispatch name args s))"
  by (simp add: dispatch_def evolves_def static_def cacheDone_def)

lemma evolves_push: "evolves s (s\<lparr>currentRoutes := currentRoutes s @ x\<rparr>)"
  by (simp add: evolves_def static_def cacheDone_def)

lemma authGate_state: "state_of (authGate def s) = s"
  by (simp add: authGate_def withOptions_def split: option.splits)

lemma find_markDone:
  "find (\<lambda>item. fst item = m) (markDone name c) =
     (if m = name then map_option (\<lambda>item. (fst item, True)) (find (\<lambda>item. fst item = m) c)
      else find (\<lambda>item. fst item = m) c)"
  by (induction c) auto

lemma evolvesI:
  "static s' = static s \<Longrightarrow> currentRoutes s' = currentRoutes s \<Longrightarrow> events s' = events s \<Longrightarrow>
   (\<And>name. cacheDone name s \<Longrightarrow> cacheDone name s') \<Longrightarrow> evolves s s'"
  by (simp add: evolves_def)

lemma evolves_markDone: "evolves s (s\<lparr>cachedTriggers := markDone name (cachedTriggers s)\<rparr>)"
proof (rule evolvesI)
  fix m assume "cacheDone m s"
  then show "cacheDone m (s\<lparr>cachedTriggers := markDone name (cachedTriggers s)\<rparr>)"
    by (cases "find (\<lambda>item. fst item = m) (cachedTriggers s)")
       (auto simp add: cacheDone_def find_markDone)
qed (simp_all add: static_def)


lemma find_snoc_Some:
  "find P xs = Some y \<Longrightarrow> find P (xs @ [x]) = Some y"
  by (induction xs) (auto split: if_splits)

lemma evolves_findCachedTrigger: "evolves s (snd (findCachedTrigger name s))"
proof (cases "find (\<lambda>item. fst item = name) (cachedTriggers s)")
  case (Some item)
  then show ?thesis by (simp add: findCachedTrigger_def evolves_refl)
next
  case None
  have "evolves s (s\<lparr>cachedTriggers := cachedTriggers s @ [(name, False)]\<rparr>)"
  proof (rule evolvesI)
    fix m assume "cacheDone m s"
    then obtain item where "find (\<lambda>item. fst item = m) (cachedTriggers s) = Some item" "snd item"
      by (auto simp: cacheDone_def split: option.splits)
    then show "cacheDone m (s\<lparr>cachedTriggers := cachedTriggers s @ [(name, False)]\<rparr>)"
      by (simp add: cacheDone_def find_snoc_Some)
  qed (simp_all add: static_def)
  then show ?thesis using None by (simp add: findCachedTrigger_def)
qed


lemma evolves_if:
  "(b \<Longrightarrow> evolves s (state_of x)) \<Longrightarrow> (\<not> b \<Longrightarrow> evolves s (state_of y)) \<Longrightarrow>
   evolves s (state_of (if b then x else y))"
  by simp

lemma evolves_Returned: "evolves s (state_of (Returned a s))"
  by (simp add: evolves_refl)

lemma wrapper_body_evolves:
  assumes pc: "\<And>s name args trigger. evolves s (state_of (processControllers n name args trigger s))"
    and pts: "\<And>s triggers. evolves s (state_of (processTriggers n triggers s))"
  shows "evolves s1 (state_of (case authGate (w_def w) s1 of
       Thrown e s' \<Rightarrow> Thrown e s'
     | Returned ToLogin s' \<Rightarrow>
         and_then (log s') (\<lambda>s2.
         and_then (storeCurrentRoute s2) (\<lambda>s3.
           processControllers n ''login'' None False s3))
     | Returned To403 s' \<Rightarrow>
         and_then (log s') (\<lambda>s2.
         withOptions s2 (\<lambda>opts.
           processControllers n ''403'' (Some [Str (rawPath opts s2)]) False s2))
     | Returned Pass s' \<Rightarrow>
         (case d_action (w_def w) of
            AliasTo target \<Rightarrow>
              and_then (log s') (\<lambda>s2. processControllers n target (Some wargs) True s2)
          | _ \<Rightarrow>
              and_then (log s') (\<lambda>s2.
              and_then (if d_before (w_def w) \<noteq> [] then processTriggers n (d_before (w_def w)) s2
                        else Returned () s2) (\<lambda>s3.
              and_then (runAction (d_action (w_def w)) wargs s3) (\<lambda>s4.
                if d_after (w_def w) \<noteq> [] then processTriggers n (d_after (w_def w)) s4
                else Returned () s4))))))"
proof -
  have st: "state_of (authGate (w_def w) s1) = s1" by (rule authGate_state)
  show ?thesis
  proof (cases "authGate (w_def w) s1")
    case (Thrown e s')
    then show ?thesis using st by (simp add: evolves_refl)
  next
    case (Returned g s')
    then have s': "s' = s1" using st by simp
    have full: "evolves s1 (state_of (
                and_then (log s1) (\<lambda>s2.
                and_then (if d_before (w_def w) \<noteq> [] then processTriggers n (d_before (w_def w)) s2
                          else Returned () s2) (\<lambda>s3.
                and_then (runAction (d_action (w_def w)) wargs s3) (\<lambda>s4.
                  if d_after (w_def w) \<noteq> [] then processTriggers n (d_after (w_def w)) s4
                  else Returned () s4)))))"
      by (intro evolves_and_then evolves_log evolves_if pts evolves_Returned evolves_runAction)
    show ?thesis
    proof (cases g)
      case Pass
      show ?thesis
      proof (cases "d_action (w_def w)")
        case (AliasTo target)
        have "evolves s1 (state_of (and_then (log s1) (\<lambda>s2. processControllers n target (Some wargs) True s2)))"
          by (intro evolves_and_then evolves_log pc)
        then show ?thesis using Returned Pass AliasTo s' by simp
      next
        case NoAction
        then show ?thesis using Returned Pass s' full by simp
      next
        case (Invoke f)
        then show ?thesis using Returned Pass s' full by simp
      qed
    next
      case ToLogin
      have "evolves s1 (state_of (and_then (log s1) (\<lambda>s2.
           and_then (storeCurrentRoute s2) (\<lambda>s3.
             processControllers n ''login'' None False s3))))"
        by (intro evolves_and_then evolves_log evolves_storeCurrentRoute pc)
      then show ?thesis using Returned ToLogin s' by simp
    next
      case To403
      have "evolves s1 (state_of (and_then (log s1) (\<lambda>s2.
           withOptions s2 (\<lambda>opts.
             processControllers n ''403'' (Some [Str (rawPath opts s2)]) False s2))))"
        by (intro evolves_and_then evolves_log evolves_withOptions pc)
      then show ?thesis using Returned To403 s' by simp
    qed
  qed
qed

lemma pipeline_evolves:
  "evolves s (state_of (processControllers n name args trigger s))
   \<and> evolves s (state_of (controllerWrapper n w wargs trigger s))
   \<and> evolves s (state_of (processTriggers n triggers s))
   \<and> evolves s (state_of (processTrigger n t s))"
proof (induction n arbitrary: s name args trigger w wargs triggers t)
  case 0
  show ?case by (simp add: evolves_refl)
next
  case (Suc n)
  have pc: "\<And>s name args trigger. evolves s (state_of (processControllers n name args trigger s))"
    and cw: "\<And>s w wargs trigger. evolves s (state_of (controllerWrapper n w wargs trigger s))"
    and pts: "\<And>s triggers. evolves s (state_of (processTriggers n triggers s))"
    and pt: "\<And>s t. evolves s (state_of (processTrigger n t s))"
    using Suc by blast+
  have 1: "evolves s (state_of (processControllers (Suc n) name args trigger s))"
  proof (cases "jsget (objectPrototype s) (extendedController s) name")
    case (Own c)
    then show ?thesis by (simp add: evolves_forEach cw)
  next
    case (Inherited m)
    then show ?thesis by (simp add: evolves_refl)
  next
    case Absent
    then show ?thesis by (simp add: evolves_refl)
  qed
  have 3: "evolves s (state_of (processTriggers (Suc n) triggers s))"
    by (simp add: evolves_forEach pt)
  have 4: "evolves s (state_of (processTrigger (Suc n) t s))"
  proof (cases t)
    case (TName nm)
    then show ?thesis by (simp add: pc evolves_dispatch)
  next
    case (TObj nm targs cache)
    show ?thesis
    proof (cases cache)
      case False
      then show ?thesis using TObj by (simp add: pc evolves_dispatch)
    next
      case True
      obtain d s1 where f: "findCachedTrigger nm s = (d, s1)" by (cases "findCachedTrigger nm s")
      have e1: "evolves s s1" using evolves_findCachedTrigger[of s nm] f by simp
      define s2 where "s2 = s1\<lparr>cachedTriggers := markDone nm (cachedTriggers s1)\<rparr>"
      have e2: "evolves s1 s2" unfolding s2_def by (rule evolves_markDone)
      have e3: "evolves s s2" using e1 e2 by (rule evolves_trans)
      show ?thesis
      proof (cases d)
        case True
        have "evolves s (state_of (log s1))" using e1 evolves_log[of s1] by (rule evolves_trans)
        then show ?thesis using TObj \<open>cache\<close> f True by simp
      next
        case False
        have "evolves s2 (state_of (if exists (Some nm) None s2 then processControllers n nm targs True s2
               else dispatch nm (case targs of None \<Rightarrow> [Undefined] | Some as \<Rightarrow> as) s2))"
          by (simp add: pc evolves_dispatch)
        then have "evolves s (state_of (if exists (Some nm) None s2 then processControllers n nm targs True s2
               else dispatch nm (case targs of None \<Rightarrow> [Undefined] | Some as \<Rightarrow> as) s2))"
          using e3 evolves_trans by blast
        then show ?thesis using TObj \<open>cache\<close> f False unfolding s2_def by (simp add: Let_def)
      qed
    qed
  qed
  have 2: "evolves s (state_of (controllerWrapper (Suc n) w wargs trigger s))"
  proof -
    define s1 where "s1 = (if \<not> trigger then s\<lparr>currentRoutes := currentRoutes s @ [w_name w]\<rparr> else s)"
    have e: "evolves s s1" by (simp add: s1_def evolves_push evolves_refl)
    have body: "evolves s1 (state_of (case authGate (w_def w) s1 of
           Thrown e s' \<Rightarrow> Thrown e s'
         | Returned ToLogin s' \<Rightarrow>
             and_then (log s') (\<lambda>s2.
             and_then (storeCurrentRoute s2) (\<lambda>s3.
               processControllers n ''login'' None False s3))
         | Returned To403 s' \<Rightarrow>
             and_then (log s') (\<lambda>s2.
             withOptions s2 (\<lambda>opts.
               processControllers n ''403'' (Some [Str (rawPath opts s2)]) False s2))
         | Returned Pass s' \<Rightarrow>
             (case d_action (w_def w) of
                AliasTo target \<Rightarrow>
                  and_then (log s') (\<lambda>s2. processControllers n target (Some wargs) True s2)
              | _ \<Rightarrow>
                  and_then (log s') (\<lambda>s2.
                  and_then (if d_before (w_def w) \<noteq> [] then processTriggers n (d_before (w_def w)) s2
                            else Returned () s2) (\<lambda>s3.
                  and_then (runAction (d_action (w_def w)) wargs s3) (\<lambda>s4.
                    if d_after (w_def w) \<noteq> [] then processTriggers n (d_after (w_def w)) s4
                    else Returned () s4))))))"
      using pc pts by (rule wrapper_body_evolves)
    have "evolves s (state_of (case authGate (w_def w) s1 of
           Thrown e s' \<Rightarrow> Thrown e s'
         | Returned ToLogin s' \<Rightarrow>
             and_then (log s') (\<lambda>s2.
             and_then (storeCurrentRoute s2) (\<lambda>s3.
               processControllers n ''login'' None False s3))
         | Returned To403 s' \<Rightarrow>
             and_then (log s') (\<lambda>s2.
             withOptions s2 (\<lambda>opts.
               processControllers n ''403'' (Some [Str (rawPath opts s2)]) False s2))
         | Returned Pass s' \<Rightarrow>
             (case d_action (w_def w) of
                AliasTo target \<Rightarrow>
                  and_then (log s') (\<lambda>s2. processControllers n target (Some wargs) True s2)
              | _ \<Rightarrow>
                  and_then (log s') (\<lambda>s2.
                  and_then (if d_before (w_def w) \<noteq> [] then processTriggers n (d_before (w_def w)) s2
                            else Returned () s2) (\<lambda>s3.
                  and_then (runAction (d_action (w_def w)) wargs s3) (\<lambda>s4.
                    if d_after (w_def w) \<noteq> [] then processTriggers n (d_after (w_def w)) s4
                    else Returned () s4))))))"
      by (rule evolves_trans[OF e body])
    then show ?thesis unfolding s1_def by (simp add: Let_def)
  qed
  show ?case using 1 2 3 4 by blast
qed

section \<open>Evaluating the examples\<close>

lemma nameOf_RName: "n \<noteq> ''__proto__'' \<Longrightarrow> nameOf (RName n) = n"
  by (simp add: RName_inverse)

lemma jsEntries_Nil: "jsEntries [] = []"
  by (simp add: jsEntries_def)

lemma examplePrototype_absent:
  "k \<notin> set [''constructor'', ''__defineGetter__'', ''__defineSetter__'', ''hasOwnProperty'',
      ''__lookupGetter__'', ''__lookupSetter__'', ''isPrototypeOf'', ''propertyIsEnumerable'',
      ''toString'', ''valueOf'', ''toLocaleString'', ''__proto__''] \<Longrightarrow>
   map_of examplePrototype k = None"
  by (simp add: examplePrototype_def browserPrototype_def builtin_def)

lemma exampleStarted_eq:
  "exampleStarted =
     (init examplePrototype ''/'' [])\<lparr>options := Some exampleOptions, dispatcher := True, router := True\<rparr>"
  by (simp add: exampleStarted_def start_def compileRoutes_def init_def jsEntries_Nil)

section \<open>Trigger cache\<close>




lemma evolves_cacheDone: "evolves s s' \<Longrightarrow> cacheDone name s \<Longrightarrow> cacheDone name s'"
  by (simp add: evolves_def)

lemma evolves_static: "evolves s s' \<Longrightarrow> static s' = static s"
  by (simp add: evolves_def)












lemma static_clearCache: "static (clearCache s) = static s"
  by (simp add: static_def clearCache_def)







text \<open>
  A trigger named like a member of \<open>Object.prototype\<close> passes for a route: nothing is
  dispatched, and the event dispatcher is not called.
\<close>

lemma trigger_named_like_member:
  "exists (Some ''constructor'') None exampleStarted
   \<and> processTrigger 3 (TName ''constructor'') exampleStarted = Returned () exampleStarted
   \<and> processTrigger 3 (TObj ''toString'' None False) exampleStarted = Returned () exampleStarted"
  by (simp add: exampleStarted_eq init_def exists_def truthy_def jsget_def eval_nat_numeral
        examplePrototype_def browserPrototype_def builtin_def)

section \<open>Properties of the route registry\<close>

lemma map_of_jsput: "map_of (jsput k v al) k' = (if k' = k then Some v else map_of al k')"
  by (induction al) auto

lemma jsput_jsput: "jsput k v' (jsput k v al) = jsput k v' al"
  by (induction al) auto

lemma jsget_Own: "map_of table k = Some v \<Longrightarrow> jsget proto table k = Own v"
  by (simp add: jsget_def)

lemma jsget_jsput: "jsget proto (jsput k v table) k' = (if k' = k then Own v else jsget proto table k')"
  by (simp add: jsget_def map_of_jsput)

lemma jsget_no_own:
  "map_of table k = None \<Longrightarrow> (case jsget proto table k of Own v \<Rightarrow> f v | Inherited m \<Rightarrow> d | Absent \<Rightarrow> d) = d"
  by (simp add: jsget_def split: option.splits)

lemma route_unbound:
  assumes "\<not> pathTaken (routeKey def) s"
  shows "route name def s =
     Returned ()
       (s\<lparr>routes := (if d_path def \<noteq> None then jsput (routeKey def) name (routes s) else routes s),
          extendedRoutes := jsput (routeKey def) [nameOf name] (extendedRoutes s),
          extendedController :=
            jsput (nameOf name) \<lparr>re = None, wrappers = [entry (nameOf name) def]\<rparr>
              (extendedController s),
          closeControllers := withClose (nameOf name) def s\<rparr>)"
  using assms
  by (cases "d_close def")
     (simp_all add: route_def routeKey_def entry_def withClose_def Let_def jsget_jsput jsput_jsput)

lemma pathTaken_Own:
  "map_of (routes s) k = Some owner \<Longrightarrow> pathTaken k s = (nameOf owner \<noteq> [])"
  by (simp add: pathTaken_def jsget_def)

lemma route_bound:
  assumes "map_of (routes s) (routeKey def) = Some owner" and "nameOf owner \<noteq> []"
    and "map_of (extendedRoutes s) (routeKey def) = Some names"
    and "map_of (extendedController s) (nameOf owner) = Some c"
  shows "route name def s =
     Returned ()
       (s\<lparr>extendedRoutes := jsput (routeKey def) (names @ [nameOf name]) (extendedRoutes s),
          extendedController :=
            (if owner \<noteq> name
             then jsput (nameOf name) \<lparr>re = None, wrappers = [entry (nameOf name) def]\<rparr>
                    (jsput (nameOf owner) (c\<lparr>wrappers := wrappers c @ [entry (nameOf name) def]\<rparr>)
                       (extendedController s))
             else jsput (nameOf owner) (c\<lparr>wrappers := wrappers c @ [entry (nameOf name) def]\<rparr>)
                    (extendedController s)),
          closeControllers := withClose (nameOf name) def s\<rparr>)"
proof -
  have t: "pathTaken (routeKey def) s" using assms(1,2) by (simp add: pathTaken_Own)
  have g: "jsget (objectPrototype s) (routes s) (routeKey def) = Own owner"
    using assms(1) by (rule jsget_Own)
  show ?thesis
    using assms t g
    by (cases "d_close def")
       (simp_all add: route_def routeKey_def[symmetric] entry_def withClose_def Let_def jsget_Own
          nameOf_inject)
qed

text \<open>What \<open>route\<close> leaves alone when the path is taken.\<close>

lemma route_taken_routes:
  "pathTaken (routeKey def) s \<Longrightarrow> routes (state_of (route name def s)) = routes s"
  by (cases "d_close def")
     (auto simp: route_def routeKey_def[symmetric] Let_def split: slot.splits)


lemma route_taken:
  assumes "pathTaken (routeKey def) s"
  shows "route name def s =
     (case map_of (extendedRoutes s) (routeKey def) of
        None \<Rightarrow> Thrown TypeError (s\<lparr>closeControllers := withClose (nameOf name) def s\<rparr>)
      | Some names \<Rightarrow>
          (case map_of (extendedController s) (nameKey (holder (routeKey def) s)) of
             None \<Rightarrow>
               Thrown TypeError
                 (s\<lparr>extendedRoutes := jsput (routeKey def) (names @ [nameOf name]) (extendedRoutes s),
                    closeControllers := withClose (nameOf name) def s\<rparr>)
           | Some c \<Rightarrow>
               Returned ()
                 (s\<lparr>extendedRoutes := jsput (routeKey def) (names @ [nameOf name]) (extendedRoutes s),
                    extendedController :=
                      (if holder (routeKey def) s \<noteq> NameStr (nameOf name)
                       then jsput (nameOf name) \<lparr>re = None, wrappers = [entry (nameOf name) def]\<rparr>
                              (jsput (nameKey (holder (routeKey def) s))
                                 (c\<lparr>wrappers := wrappers c @ [entry (nameOf name) def]\<rparr>)
                                 (extendedController s))
                       else jsput (nameKey (holder (routeKey def) s))
                              (c\<lparr>wrappers := wrappers c @ [entry (nameOf name) def]\<rparr>)
                              (extendedController s)),
                    closeControllers := withClose (nameOf name) def s\<rparr>)))"
proof -
  have h: "(case jsget (objectPrototype s) (routes s) (routeKey def) of
              Own n \<Rightarrow> NameStr (nameOf n) | Inherited m \<Rightarrow> NameObj m
            | Absent \<Rightarrow> NameStr (nameOf name)) = holder (routeKey def) s"
    using assms by (simp add: holder_def pathTaken_def split: slot.splits)
  show ?thesis
  proof (cases "map_of (extendedRoutes s) (routeKey def)")
    case None
    then show ?thesis using assms
      by (cases "d_close def")
         (simp_all add: route_def routeKey_def[symmetric] withClose_def Let_def jsget_no_own)
  next
    case (Some names)
    show ?thesis
    proof (cases "map_of (extendedController s) (nameKey (holder (routeKey def) s))")
      case None
      then show ?thesis using assms Some h
        by (cases "d_close def")
           (simp_all add: route_def routeKey_def[symmetric] withClose_def Let_def jsget_no_own
              jsget_Own)
    next
      case c: (Some c)
      then show ?thesis using assms Some h
        by (cases "d_close def")
           (simp_all add: route_def routeKey_def[symmetric] withClose_def Let_def jsget_Own
              entry_def)
    qed
  qed
qed

lemma route_keeps_names:
  assumes "map_of (extendedRoutes s) k \<noteq> None"
  shows "map_of (extendedRoutes (state_of (route name def s))) k \<noteq> None"
proof (cases "pathTaken (routeKey def) s")
  case False
  then show ?thesis using assms by (simp add: route_unbound map_of_jsput)
next
  case True
  show ?thesis
  proof (cases "map_of (extendedRoutes s) (routeKey def)")
    case None
    then show ?thesis using assms by (simp add: route_taken[OF True])
  next
    case (Some names)
    then show ?thesis using assms
      by (cases "map_of (extendedController s) (nameKey (holder (routeKey def) s))")
         (simp_all add: route_taken[OF True] map_of_jsput)
  qed
qed

lemma route_keeps_head:
  assumes "map_of (extendedController s) owner = Some c" and "wrappers c = w # ws"
    and "nameOf name \<noteq> owner"
  shows "\<exists>c' ws'. map_of (extendedController (state_of (route name def s))) owner = Some c'
            \<and> wrappers c' = w # ws'"
proof (cases "pathTaken (routeKey def) s")
  case False
  then show ?thesis using assms by (simp add: route_unbound map_of_jsput)
next
  case True
  show ?thesis
  proof (cases "map_of (extendedRoutes s) (routeKey def)")
    case None
    then show ?thesis using assms by (simp add: route_taken[OF True])
  next
    case (Some names)
    show ?thesis
    proof (cases "map_of (extendedController s) (nameKey (holder (routeKey def) s))")
      case None
      then show ?thesis using assms Some by (simp add: route_taken[OF True])
    next
      case c': (Some c')
      show ?thesis
      proof (cases "nameKey (holder (routeKey def) s) = owner")
        case True
        then have "c' = c" using c' assms(1) by simp
        then show ?thesis using assms Some c' True
          by (simp add: route_taken[OF \<open>pathTaken (routeKey def) s\<close>] map_of_jsput)
      next
        case False
        then show ?thesis using assms Some c'
          by (simp add: route_taken[OF \<open>pathTaken (routeKey def) s\<close>] map_of_jsput)
      qed
    qed
  qed
qed

lemma route_keeps_owner:
  assumes "map_of (routes s) k = Some owner" and "nameOf owner \<noteq> []"
  shows "map_of (routes (state_of (route name def s))) k = Some owner"
proof (cases "pathTaken (routeKey def) s")
  case True
  then show ?thesis using assms(1) by (simp add: route_taken_routes)
next
  case False
  have "pathTaken k s" using assms by (simp add: pathTaken_Own)
  then have "routeKey def \<noteq> k" using False by auto
  then show ?thesis using assms(1) by (simp add: route_unbound[OF False] map_of_jsput)
qed

lemma routeAll_keeps_owner:
  assumes "map_of (routes s) k = Some owner" and "nameOf owner \<noteq> []"
  shows "map_of (routes (state_of (routeAll regs s))) k = Some owner"
  using assms(1)
proof (induction regs arbitrary: s)
  case Nil
  then show ?case by simp
next
  case (Cons r regs)
  obtain name "def" where r: "r = (name, def)" by (cases r)
  have k: "map_of (routes (state_of (route name def s))) k = Some owner"
    using Cons.prems assms(2) by (rule route_keeps_owner)
  show ?case
  proof (cases "route name def s")
    case (Returned u s')
    then show ?thesis using Cons.IH[of s'] k r by simp
  next
    case (Thrown e s')
    then show ?thesis using k r by simp
  qed
qed

lemma route_owns:
  assumes "owns k owner w s" and "nameOf owner \<noteq> []" and "name \<noteq> owner"
  shows "owns k owner w (state_of (route name def s))"
proof -
  from assms(1) obtain c ws where
    r: "map_of (routes s) k = Some owner" and er: "map_of (extendedRoutes s) k \<noteq> None"
    and c: "map_of (extendedController s) (nameOf owner) = Some c" "wrappers c = w # ws"
    unfolding owns_def by blast
  have n: "nameOf name \<noteq> nameOf owner" using assms(3) by (simp add: nameOf_inject)
  have 1: "map_of (routes (state_of (route name def s))) k = Some owner"
    using r assms(2) by (rule route_keeps_owner)
  have 2: "map_of (extendedRoutes (state_of (route name def s))) k \<noteq> None"
    using er by (rule route_keeps_names)
  have 3: "\<exists>c' ws'. map_of (extendedController (state_of (route name def s))) (nameOf owner) = Some c'
            \<and> wrappers c' = w # ws'"
    using c n by (rule route_keeps_head)
  show ?thesis unfolding owns_def using 1 2 3 by blast
qed

lemma routeAll_owns:
  assumes "nameOf owner \<noteq> []" and "\<forall>(name, def) \<in> set regs. name \<noteq> owner"
  shows "owns k owner w s \<Longrightarrow> owns k owner w (state_of (routeAll regs s))"
  using assms(2)
proof (induction regs arbitrary: s)
  case Nil
  then show ?case by simp
next
  case (Cons r regs)
  obtain name "def" where r: "r = (name, def)" by (cases r)
  have n: "name \<noteq> owner" using Cons.prems(2) r by simp
  have o: "owns k owner w (state_of (route name def s))"
    using Cons.prems(1) assms(1) n by (rule route_owns)
  have rest: "\<forall>(name, def) \<in> set regs. name \<noteq> owner" using Cons.prems(2) by simp
  show ?case
  proof (cases "route name def s")
    case (Returned u s')
    then show ?thesis using Cons.IH[of s'] o r rest by simp
  next
    case (Thrown e s')
    then show ?thesis using o r by simp
  qed
qed

section \<open>Entries and chains\<close>

lemma controllerWrapper_entered:
  "controllerWrapper (Suc n) w args trigger s =
     (case authGate (w_def w) (entered trigger w s) of
           Thrown e s' \<Rightarrow> Thrown e s'
         | Returned ToLogin s' \<Rightarrow>
             and_then (log s') (\<lambda>s2.
             and_then (storeCurrentRoute s2) (\<lambda>s3.
               processControllers n ''login'' None False s3))
         | Returned To403 s' \<Rightarrow>
             and_then (log s') (\<lambda>s2.
             withOptions s2 (\<lambda>opts.
               processControllers n ''403'' (Some [Str (rawPath opts s2)]) False s2))
         | Returned Pass s' \<Rightarrow>
             (case d_action (w_def w) of
                AliasTo target \<Rightarrow>
                  and_then (log s') (\<lambda>s2. processControllers n target (Some args) True s2)
              | _ \<Rightarrow>
                  and_then (log s') (\<lambda>s2.
                  and_then (if d_before (w_def w) \<noteq> [] then processTriggers n (d_before (w_def w)) s2
                            else Returned () s2) (\<lambda>s3.
                  and_then (runAction (d_action (w_def w)) args s3) (\<lambda>s4.
                    if d_after (w_def w) \<noteq> [] then processTriggers n (d_after (w_def w)) s4
                    else Returned () s4)))))"
  by (cases trigger) (simp_all add: entered_def Let_def)

text \<open>An entry works on from the state in which it has pushed its name.\<close>

lemma entry_evolves:
  "evolves (entered trigger w s) (state_of (controllerWrapper (Suc n) w args trigger s))"
  unfolding controllerWrapper_entered
  by (rule wrapper_body_evolves) (simp_all add: pipeline_evolves)

lemma evolves_currentRoutes: "evolves s s' \<Longrightarrow> \<exists>rs. currentRoutes s' = currentRoutes s @ rs"
  by (simp add: evolves_def)

lemma entry_pushes:
  assumes "controllerWrapper n w args False s = Returned u s'"
  shows "\<exists>rs. currentRoutes s' = currentRoutes s @ w_name w # rs"
proof (cases n)
  case 0
  then show ?thesis using assms by simp
next
  case (Suc k)
  have "evolves (entered False w s) (state_of (controllerWrapper (Suc k) w args False s))"
    by (rule entry_evolves)
  then have "evolves (entered False w s) s'" using assms Suc by simp
  then obtain rs where "currentRoutes s' = currentRoutes (entered False w s) @ rs"
    using evolves_currentRoutes by blast
  then show ?thesis by (simp add: entered_def)
qed

lemma and_then_Returned:
  assumes "and_then m f = Returned u s'"
  obtains v s1 where "m = Returned v s1" and "f s1 = Returned u s'"
  using assms by (cases m) simp_all

lemma forEach_append:
  "forEach f (xs @ ys) s = and_then (forEach f xs s) (forEach f ys)"
proof (induction xs arbitrary: s)
  case Nil
  show ?case by simp
next
  case (Cons x xs)
  show ?case by (cases "f x s") (simp_all add: Cons)
qed

lemma chain_evolves:
  "evolves s (state_of (forEach (\<lambda>callback. controllerWrapper n callback args trigger) ws s))"
  by (rule evolves_forEach) (simp add: pipeline_evolves)

text \<open>
  A chain that holds two entries and returns has pushed both names, in the order of the
  chain.
\<close>

lemma chain_pushes:
  assumes "forEach (\<lambda>callback. controllerWrapper n callback args False)
             (w1 # ws @ w2 # ws') s = Returned u s'"
  shows "\<exists>r1 r2. currentRoutes s' = currentRoutes s @ w_name w1 # r1 @ w_name w2 # r2"
proof -
  let ?f = "\<lambda>callback. controllerWrapper n callback args False"
  have tail: "forEach ?f (w2 # ws') = (\<lambda>sb. and_then (?f w2 sb) (forEach ?f ws'))"
    by (rule ext) simp
  have mid: "forEach ?f (ws @ w2 # ws')
      = (\<lambda>sa. and_then (forEach ?f ws sa) (\<lambda>sb. and_then (?f w2 sb) (forEach ?f ws')))"
    by (rule ext) (simp only: forEach_append tail)
  have split: "forEach ?f (w1 # ws @ w2 # ws') s
      = and_then (?f w1 s) (\<lambda>sa. and_then (forEach ?f ws sa) (\<lambda>sb.
          and_then (?f w2 sb) (forEach ?f ws')))"
    by (simp only: forEach.simps mid)
  from assms obtain v sa where a: "?f w1 s = Returned v sa"
    and rest: "and_then (forEach ?f ws sa) (\<lambda>sb. and_then (?f w2 sb) (forEach ?f ws')) = Returned u s'"
    unfolding split by (rule and_then_Returned)
  from rest obtain v' sb where b: "forEach ?f ws sa = Returned v' sb"
    and rest': "and_then (?f w2 sb) (forEach ?f ws') = Returned u s'"
    by (rule and_then_Returned)
  from rest' obtain v'' sc where c: "?f w2 sb = Returned v'' sc"
    and d: "forEach ?f ws' sc = Returned u s'"
    by (rule and_then_Returned)
  obtain ra where ra: "currentRoutes sa = currentRoutes s @ w_name w1 # ra"
    using entry_pushes[OF a] by blast
  have "evolves sa (state_of (forEach ?f ws sa))" by (rule chain_evolves)
  then obtain rb where rb: "currentRoutes sb = currentRoutes sa @ rb"
    using b evolves_currentRoutes by fastforce
  obtain rc where rc: "currentRoutes sc = currentRoutes sb @ w_name w2 # rc"
    using entry_pushes[OF c] by blast
  have "evolves sc (state_of (forEach ?f ws' sc))" by (rule chain_evolves)
  then obtain rd where rd: "currentRoutes s' = currentRoutes sc @ rd"
    using d evolves_currentRoutes by fastforce
  have "currentRoutes s' = currentRoutes s @ w_name w1 # (ra @ rb) @ w_name w2 # (rc @ rd)"
    using ra rb rc rd by simp
  then show ?thesis by blast
qed

section \<open>Routes that share a path\<close>

lemma route_extends_chain:
  assumes "map_of (extendedController s) owner = Some c" and "nameOf name \<noteq> owner"
  shows "\<exists>c' more. map_of (extendedController (state_of (route name def s))) owner = Some c'
            \<and> wrappers c' = wrappers c @ more"
proof (cases "pathTaken (routeKey def) s")
  case False
  then show ?thesis using assms by (simp add: route_unbound map_of_jsput)
next
  case True
  show ?thesis
  proof (cases "map_of (extendedRoutes s) (routeKey def)")
    case None
    then show ?thesis using assms by (simp add: route_taken[OF True])
  next
    case (Some names)
    show ?thesis
    proof (cases "map_of (extendedController s) (nameKey (holder (routeKey def) s))")
      case None
      then show ?thesis using assms Some by (simp add: route_taken[OF True])
    next
      case c': (Some c')
      show ?thesis
      proof (cases "nameKey (holder (routeKey def) s) = owner")
        case True
        then have "c' = c" using c' assms(1) by simp
        then show ?thesis using assms Some c' True
          by (simp add: route_taken[OF \<open>pathTaken (routeKey def) s\<close>] map_of_jsput)
      next
        case False
        then show ?thesis using assms Some c'
          by (simp add: route_taken[OF \<open>pathTaken (routeKey def) s\<close>] map_of_jsput)
      qed
    qed
  qed
qed

lemma routeAll_extends_chain:
  assumes "\<forall>(name, def) \<in> set regs. nameOf name \<noteq> owner"
  shows "map_of (extendedController s) owner = Some c \<Longrightarrow>
     \<exists>c' more. map_of (extendedController (state_of (routeAll regs s))) owner = Some c'
            \<and> wrappers c' = wrappers c @ more"
  using assms
proof (induction regs arbitrary: s c)
  case Nil
  then show ?case by simp
next
  case (Cons r regs)
  obtain name "def" where r: "r = (name, def)" by (cases r)
  have n: "nameOf name \<noteq> owner" using Cons.prems(2) r by simp
  obtain c1 m1 where c1: "map_of (extendedController (state_of (route name def s))) owner = Some c1"
      "wrappers c1 = wrappers c @ m1"
    using route_extends_chain[OF Cons.prems(1) n] by blast
  have rest: "\<forall>(name, def) \<in> set regs. nameOf name \<noteq> owner" using Cons.prems(2) by simp
  show ?case
  proof (cases "route name def s")
    case (Returned u s1)
    then have "map_of (extendedController s1) owner = Some c1" using c1(1) by simp
    then obtain c2 m2 where "map_of (extendedController (state_of (routeAll regs s1))) owner = Some c2"
        "wrappers c2 = wrappers c1 @ m2"
      using Cons.IH[OF _ rest] by blast
    then show ?thesis using Returned r c1(2) by simp
  next
    case (Thrown e s1)
    then show ?thesis using c1 r by simp
  qed
qed

lemma chainOf_compile_step:
  "chainOf n
     (if exists (Some (nameOf name)) None s then
        (case jsget (objectPrototype s) (extendedController s) (nameOf name) of
           Own c \<Rightarrow>
             s\<lparr>extendedController :=
                  jsput (nameOf name) (c\<lparr>re := Some x\<rparr>) (extendedController s)\<rparr>
         | _ \<Rightarrow> s)
      else s) = chainOf n s"
  by (auto simp: chainOf_def jsget_def map_of_jsput split: option.splits slot.splits)

lemma chainOf_compileRoutes: "chainOf n (compileRoutes r s) = chainOf n s"
proof -
  have "chainOf n (foldl (\<lambda>s' (p, name).
              if exists (Some (nameOf name)) None s' then
                (case jsget (objectPrototype s') (extendedController s') (nameOf name) of
                   Own c \<Rightarrow>
                     s'\<lparr>extendedController :=
                          jsput (nameOf name) (c\<lparr>re := Some (r p)\<rparr>)
                            (extendedController s')\<rparr>
                 | _ \<Rightarrow> s')
              else s') s xs) = chainOf n s" for xs
  proof (induction xs arbitrary: s)
    case Nil
    show ?case by simp
  next
    case (Cons x xs)
    obtain p name where x: "x = (p, name)" by (cases x)
    show ?case unfolding x foldl_Cons prod.case Cons.IH by (rule chainOf_compile_step)
  qed
  then show ?thesis unfolding compileRoutes_def by simp
qed

lemma chainOf_start: "chainOf n (state_of (start r app opts s)) = chainOf n s"
proof -
  have a: "chainOf n (s\<lparr>options := Some opts\<rparr>) = chainOf n s" by (simp add: chainOf_def)
  have b: "chainOf n (s\<lparr>options := Some opts, dispatcher := True, router := True\<rparr>) = chainOf n s"
    by (simp add: chainOf_def)
  show ?thesis by (simp add: start_def Let_def chainOf_compileRoutes a b)
qed

lemma processControllers_chain:
  "chainOf name s = Some ws \<Longrightarrow>
   processControllers (Suc k) name (Some args) trigger s
     = forEach (\<lambda>callback. controllerWrapper k callback args trigger) ws s"
  by (auto simp: chainOf_def jsget_def)


text \<open>
  C7, as amended. Take two calls of \<open>route\<close> with distinct names, neither of them
  \<open>__proto__\<close>, and the same path template, the first with a non-empty name on a path
  for which \<open>routes[path]\<close> is falsy (no route holds it, and it is not the name of a
  member of \<open>Object.prototype\<close>), and between them any calls that do not register the
  first name again. Then the path is bound
  to the first name, and stays bound to it whatever is registered later. The second call
  appends its entry to the chain of the first name, after the entry of the first call.
  When the first name is not registered again later either, then in every state that holds
  for the first name the chain that \<open>start\<close> leaves, the function Backbone calls for the
  path, \<open>processControllers\<close> of the first name, runs that chain, in which the first
  entry comes before the second; and when the call returns, the CurrentRouteStack has
  grown by the first name and, after it, the second.
\<close>

theorem shared_path_keeps_owner:
  assumes "d_path d1 \<noteq> None" and "routeKey d2 = routeKey d1"
    and "nameOf n1 \<noteq> []" and "n2 \<noteq> n1"
    and "\<not> pathTaken (routeKey d1) s"
    and "\<forall>(name, def) \<in> set between. name \<noteq> n1"
    and "s2 = state_of (route n2 d2 (state_of (routeAll between (state_of (route n1 d1 s)))))"
    and "\<forall>(name, def) \<in> set later. name \<noteq> n1"
    and "chainOf (nameOf n1) s'
           = chainOf (nameOf n1)
               (state_of (start routeToRegExp app opts (state_of (routeAll later s2))))"
  shows "map_of (routes s2) (routeKey d1) = Some n1
     \<and> map_of (routes (state_of (routeAll anyLater s2))) (routeKey d1) = Some n1
     \<and> (\<exists>ws ws'.
           chainOf (nameOf n1) s' = Some (entry (nameOf n1) d1 # ws @ entry (nameOf n2) d2 # ws')
           \<and> processControllers (Suc k) (nameOf n1) (Some args) False s'
               = forEach (\<lambda>callback. controllerWrapper k callback args False)
                   (entry (nameOf n1) d1 # ws @ entry (nameOf n2) d2 # ws') s'
           \<and> (\<forall>u s''. processControllers (Suc k) (nameOf n1) (Some args) False s' = Returned u s''
                 \<longrightarrow> (\<exists>r1 r2. currentRoutes s''
                                 = currentRoutes s' @ nameOf n1 # r1 @ nameOf n2 # r2)))"
proof -
  define key where "key = routeKey d1"
  define s1 where "s1 = state_of (route n1 d1 s)"
  define sm where "sm = state_of (routeAll between s1)"
  have u: "\<not> pathTaken (routeKey d1) s" by (rule assms(5))
  have o1: "owns key n1 (entry (nameOf n1) d1) s1"
    unfolding s1_def key_def using assms(1)
    by (simp add: route_unbound[OF u] owns_def map_of_jsput)
  have c1: "map_of (extendedController s1) (nameOf n1)
              = Some \<lparr>re = None, wrappers = [entry (nameOf n1) d1]\<rparr>"
    unfolding s1_def by (simp add: route_unbound[OF u] map_of_jsput)
  have om: "owns key n1 (entry (nameOf n1) d1) sm"
    unfolding sm_def using assms(3,6) o1 by (rule routeAll_owns)
  have bn: "\<forall>(name, def) \<in> set between. nameOf name \<noteq> nameOf n1"
    using assms(6) by (auto simp: nameOf_inject)
  obtain c ws where c: "map_of (extendedController sm) (nameOf n1) = Some c"
    and w: "wrappers c = entry (nameOf n1) d1 # ws"
    using routeAll_extends_chain[OF bn c1] unfolding sm_def by auto
  from om obtain names where
    r: "map_of (routes sm) (routeKey d2) = Some n1"
    and er: "map_of (extendedRoutes sm) (routeKey d2) = Some names"
    unfolding owns_def key_def assms(2) by blast
  have s2: "s2 = state_of (route n2 d2 sm)" using assms(7) by (simp add: sm_def s1_def)
  have n: "n1 \<noteq> n2" using assms(4) by simp
  have r2: "map_of (routes s2) (routeKey d1) = Some n1"
    unfolding s2 using r assms(2) by (simp add: route_bound[OF r assms(3) er c])
  have c2: "map_of (extendedController s2) (nameOf n1)
              = Some (c\<lparr>wrappers := entry (nameOf n1) d1 # ws @ [entry (nameOf n2) d2]\<rparr>)"
    unfolding s2 using n w by (simp add: route_bound[OF r assms(3) er c] map_of_jsput nameOf_inject)
  have l: "map_of (routes (state_of (routeAll anyLater s2))) (routeKey d1) = Some n1"
    using r2 assms(3) by (rule routeAll_keeps_owner)
  have ln: "\<forall>(name, def) \<in> set later. nameOf name \<noteq> nameOf n1"
    using assms(8) by (auto simp: nameOf_inject)
  obtain c3 ws' where c3: "map_of (extendedController (state_of (routeAll later s2))) (nameOf n1) = Some c3"
    and w3: "wrappers c3 = (entry (nameOf n1) d1 # ws @ [entry (nameOf n2) d2]) @ ws'"
    using routeAll_extends_chain[OF ln c2] by auto
  have ch3: "chainOf (nameOf n1) (state_of (routeAll later s2))
               = Some (entry (nameOf n1) d1 # ws @ entry (nameOf n2) d2 # ws')"
    using c3 w3 by (simp add: chainOf_def)
  have ch: "chainOf (nameOf n1) s' = Some (entry (nameOf n1) d1 # ws @ entry (nameOf n2) d2 # ws')"
    using assms(9) ch3 by (simp add: chainOf_start)
  have run: "processControllers (Suc k) (nameOf n1) (Some args) False s'
               = forEach (\<lambda>callback. controllerWrapper k callback args False)
                   (entry (nameOf n1) d1 # ws @ entry (nameOf n2) d2 # ws') s'"
    using ch by (rule processControllers_chain)
  have order: "\<exists>r1 r2. currentRoutes s'' = currentRoutes s' @ nameOf n1 # r1 @ nameOf n2 # r2"
    if "processControllers (Suc k) (nameOf n1) (Some args) False s' = Returned u s''" for u s''
  proof -
    have "forEach (\<lambda>callback. controllerWrapper k callback args False)
            (entry (nameOf n1) d1 # ws @ entry (nameOf n2) d2 # ws') s' = Returned u s''"
      using that run by simp
    then have "\<exists>r1 r2. currentRoutes s''
        = currentRoutes s' @ w_name (entry (nameOf n1) d1) # r1 @ w_name (entry (nameOf n2) d2) # r2"
      by (rule chain_pushes)
    then show ?thesis by (simp add: entry_def)
  qed
  show ?thesis using r2 l ch run order by blast
qed

lemma route_bound_eval:
  assumes "map_of (routes s) (routeKey def) \<noteq> None"
    and "nameOf (the (map_of (routes s) (routeKey def))) \<noteq> []"
    and "map_of (extendedRoutes s) (routeKey def) \<noteq> None"
    and "map_of (extendedController s) (nameOf (the (map_of (routes s) (routeKey def)))) \<noteq> None"
  shows "route name def s =
     Returned ()
       (s\<lparr>extendedRoutes :=
            jsput (routeKey def) (the (map_of (extendedRoutes s) (routeKey def)) @ [nameOf name])
              (extendedRoutes s),
          extendedController :=
            (if the (map_of (routes s) (routeKey def)) \<noteq> name
             then jsput (nameOf name) \<lparr>re = None, wrappers = [entry (nameOf name) def]\<rparr>
                    (jsput (nameOf (the (map_of (routes s) (routeKey def))))
                       ((the (map_of (extendedController s)
                                (nameOf (the (map_of (routes s) (routeKey def))))))
                          \<lparr>wrappers :=
                             wrappers (the (map_of (extendedController s)
                                              (nameOf (the (map_of (routes s) (routeKey def))))))
                             @ [entry (nameOf name) def]\<rparr>)
                       (extendedController s))
             else jsput (nameOf (the (map_of (routes s) (routeKey def))))
                    ((the (map_of (extendedController s)
                             (nameOf (the (map_of (routes s) (routeKey def))))))
                          \<lparr>wrappers :=
                             wrappers (the (map_of (extendedController s)
                                              (nameOf (the (map_of (routes s) (routeKey def))))))
                             @ [entry (nameOf name) def]\<rparr>)
                    (extendedController s)),
          closeControllers := withClose (nameOf name) def s\<rparr>)"
proof -
  obtain owner where o: "map_of (routes s) (routeKey def) = Some owner" using assms(1) by auto
  have e: "nameOf owner \<noteq> []" using assms(2) o by simp
  obtain names where n: "map_of (extendedRoutes s) (routeKey def) = Some names"
    using assms(3) by auto
  obtain c where c: "map_of (extendedController s) (nameOf owner) = Some c"
    using assms(4) o by auto
  show ?thesis using o n c by (auto simp: route_bound[OF o e n c])
qed

lemmas route_eval =
  route_unbound route_bound_eval routeKey_def pathKey_def stripSlash_def truthy_def
  entry_def withClose_def plainDef_def init_def map_of_jsput pathTaken_def jsget_def
  examplePrototype_absent nameOf_RName RName_inject

lemma exampleShared_eq:
  "exampleShared =
     (init examplePrototype ''/x'' [])\<lparr>routes := [(''x'', RName ''a'')],
       extendedRoutes := [(''x'', [''a'', ''c'', ''b''])],
       extendedController :=
         [(''a'', \<lparr>re = None,
             wrappers = [entry ''a'' ((plainDef ''/x'')\<lparr>d_action := Invoke ''first''\<rparr>),
                         entry ''c'' (plainDef ''/x''),
                         entry ''b'' ((plainDef ''/x'')\<lparr>d_action := Invoke ''second''\<rparr>)]\<rparr>),
          (''c'', \<lparr>re = None, wrappers = [entry ''c'' (plainDef ''/x'')]\<rparr>),
          (''b'', \<lparr>re = None,
             wrappers = [entry ''b'' ((plainDef ''/x'')\<lparr>d_action := Invoke ''second''\<rparr>)]\<rparr>)]\<rparr>"
  by (simp add: exampleShared_def route_eval)


lemma exampleSharedStarted_eq:
  "exampleSharedStarted =
     (init examplePrototype ''/x'' [])\<lparr>routes := [(''x'', RName ''a'')],
       extendedRoutes := [(''x'', [''a'', ''c'', ''b''])],
       extendedController :=
         [(''a'', \<lparr>re = Some (\<lambda>p. p = ''x''),
             wrappers = [entry ''a'' ((plainDef ''/x'')\<lparr>d_action := Invoke ''first''\<rparr>),
                         entry ''c'' (plainDef ''/x''),
                         entry ''b'' ((plainDef ''/x'')\<lparr>d_action := Invoke ''second''\<rparr>)]\<rparr>),
          (''c'', \<lparr>re = None, wrappers = [entry ''c'' (plainDef ''/x'')]\<rparr>),
          (''b'', \<lparr>re = None,
             wrappers = [entry ''b'' ((plainDef ''/x'')\<lparr>d_action := Invoke ''second''\<rparr>)]\<rparr>)],
       options := Some exampleOptions, dispatcher := True, router := True\<rparr>"
  by (simp add: exampleSharedStarted_def exampleShared_eq start_def compileRoutes_def
        jsEntries_def arrayIndex_def digit_def exists_def truthy_def jsget_def init_def
        nameOf_RName)

theorem shared_path_keeps_owner_witness:
  "map_of (routes exampleShared) ''x'' = Some (RName ''a'')
   \<and> map_of (routes (state_of (routeAll [(RName ''d'', plainDef ''/x'')] exampleShared))) ''x''
       = Some (RName ''a'')
   \<and> chainOf ''a'' exampleSharedStarted
       = Some [entry ''a'' ((plainDef ''/x'')\<lparr>d_action := Invoke ''first''\<rparr>),
               entry ''c'' (plainDef ''/x''),
               entry ''b'' ((plainDef ''/x'')\<lparr>d_action := Invoke ''second''\<rparr>)]
   \<and> processControllers 2 ''a'' (Some []) False exampleSharedStarted
       = Returned ()
           (exampleSharedStarted\<lparr>currentRoutes := [''a'', ''c'', ''b''],
              events := [EvAction ''first'' [], EvAction ''second'' []]\<rparr>)"
proof -
  let ?d1 = "(plainDef ''/x'')\<lparr>d_action := Invoke ''first''\<rparr>"
  let ?d2 = "(plainDef ''/x'')\<lparr>d_action := Invoke ''second''\<rparr>"
  have 1: "d_path ?d1 \<noteq> None" by (simp add: plainDef_def)
  have 2: "routeKey ?d2 = routeKey ?d1" by (simp add: routeKey_def plainDef_def)
  have 3: "nameOf (RName ''a'') \<noteq> []" by (simp add: nameOf_RName)
  have 4: "RName ''b'' \<noteq> RName ''a''" by (simp add: RName_inject)
  have 5: "\<not> pathTaken (routeKey ?d1) (init examplePrototype ''/x'' [])"
    by (simp add: route_eval)
  have 6: "\<forall>(name, def) \<in> set [(RName ''c'', plainDef ''/x'')]. name \<noteq> RName ''a''"
    by (simp add: RName_inject)
  have 7: "exampleShared = state_of (route (RName ''b'') ?d2
             (state_of (routeAll [(RName ''c'', plainDef ''/x'')]
                (state_of (route (RName ''a'') ?d1 (init examplePrototype ''/x'' []))))))"
    by (simp add: exampleShared_def route_eval)
  have 8: "\<forall>(name, def) \<in> set []. name \<noteq> RName ''a''" by simp
  have 9: "chainOf (nameOf (RName ''a'')) exampleSharedStarted
             = chainOf (nameOf (RName ''a''))
                 (state_of (start (\<lambda>template p. p = template) True exampleOptions
                    (state_of (routeAll [] exampleShared))))"
    by (simp add: exampleSharedStarted_def)
  have k: "routeKey ?d1 = ''x''" by (simp add: route_eval)
  note th = shared_path_keeps_owner[OF 1 2 3 4 5 6 7 8 9,
      of "[(RName ''d'', plainDef ''/x'')]" 1 "[]"]
  have a: "map_of (routes exampleShared) ''x'' = Some (RName ''a'')"
    using th[THEN conjunct1] by (simp only: k)
  have b: "map_of (routes (state_of (routeAll [(RName ''d'', plainDef ''/x'')] exampleShared))) ''x''
             = Some (RName ''a'')"
    using th[THEN conjunct2, THEN conjunct1] by (simp only: k)
  have c: "chainOf ''a'' exampleSharedStarted
       = Some [entry ''a'' ?d1, entry ''c'' (plainDef ''/x''), entry ''b'' ?d2]"
    by (simp add: exampleSharedStarted_eq chainOf_def)
  have d: "processControllers 2 ''a'' (Some []) False exampleSharedStarted
       = Returned ()
           (exampleSharedStarted\<lparr>currentRoutes := [''a'', ''c'', ''b''],
              events := [EvAction ''first'' [], EvAction ''second'' []]\<rparr>)"
    by (simp add: exampleSharedStarted_eq eval_nat_numeral jsget_def entry_def plainDef_def
          authGate_def log_def runAction_def init_def Let_def stripSlash_def)
  show ?thesis by (intro conjI a b c d)
qed

theorem shared_path_counterexample:
  "map_of (routes (state_of (routeAll [(RName [], plainDef ''/x''), (RName ''b'', plainDef ''/x'')]
        (init examplePrototype ''/'' [])))) ''x'' = Some (RName ''b'')
   \<and> chainOf [] (state_of (routeAll [(RName [], plainDef ''/x''), (RName ''b'', plainDef ''/x'')]
        (init examplePrototype ''/'' [])))
      = Some [entry [] (plainDef ''/x'')]
   \<and> map_of (routes (state_of (routeAll
        [(RName ''a'', plainDef ''/x''), (RName ''a'', plainDef ''/y''), (RName ''b'', plainDef ''/x'')]
        (init examplePrototype ''/'' [])))) ''x'' = Some (RName ''a'')
   \<and> chainOf ''a'' (state_of (routeAll
        [(RName ''a'', plainDef ''/x''), (RName ''a'', plainDef ''/y''), (RName ''b'', plainDef ''/x'')]
        (init examplePrototype ''/'' [])))
      = Some [entry ''a'' (plainDef ''/y''), entry ''b'' (plainDef ''/x'')]
   \<and> map_of (routes (state_of (routeAll
        [(RName ''a'', plainDef ''/x''), (RName ''b'', plainDef ''/x''), (RName ''a'', plainDef ''/y'')]
        (init examplePrototype ''/'' [])))) ''x'' = Some (RName ''a'')
   \<and> chainOf ''a'' (state_of (routeAll
        [(RName ''a'', plainDef ''/x''), (RName ''b'', plainDef ''/x''), (RName ''a'', plainDef ''/y'')]
        (init examplePrototype ''/'' [])))
      = Some [entry ''a'' (plainDef ''/y'')]
   \<and> map_of (routes (state_of (routeAll
        [(RName ''o'', plainDef ''/x''), (RName ''a'', plainDef ''/x''), (RName ''b'', plainDef ''/x'')]
        (init examplePrototype ''/'' [])))) ''x'' = Some (RName ''o'')
   \<and> routeAll [(RName ''a'', plainDef ''/constructor''), (RName ''b'', plainDef ''/constructor'')]
        (init examplePrototype ''/'' [])
      = Thrown TypeError (init examplePrototype ''/'' [])"
proof -
  have c: "map_of examplePrototype ''constructor'' \<noteq> None"
    by (simp add: examplePrototype_def browserPrototype_def builtin_def)
  have t: "pathTaken (routeKey (plainDef ''/constructor'')) (init examplePrototype ''/'' [])"
    using c by (auto simp: pathTaken_def jsget_def routeKey_def plainDef_def pathKey_def
          stripSlash_def init_def)
  have 8: "routeAll [(RName ''a'', plainDef ''/constructor''), (RName ''b'', plainDef ''/constructor'')]
        (init examplePrototype ''/'' [])
      = Thrown TypeError (init examplePrototype ''/'' [])"
    by (simp add: route_taken[OF t]) (simp add: init_def withClose_def plainDef_def routeKey_def)
  have 12: "map_of (routes (state_of (routeAll [(RName [], plainDef ''/x''), (RName ''b'', plainDef ''/x'')]
        (init examplePrototype ''/'' [])))) ''x'' = Some (RName ''b'')
   \<and> chainOf [] (state_of (routeAll [(RName [], plainDef ''/x''), (RName ''b'', plainDef ''/x'')]
        (init examplePrototype ''/'' [])))
      = Some [entry [] (plainDef ''/x'')]"
    by (simp add: route_eval chainOf_def)
  have 34: "map_of (routes (state_of (routeAll
        [(RName ''a'', plainDef ''/x''), (RName ''a'', plainDef ''/y''), (RName ''b'', plainDef ''/x'')]
        (init examplePrototype ''/'' [])))) ''x'' = Some (RName ''a'')
   \<and> chainOf ''a'' (state_of (routeAll
        [(RName ''a'', plainDef ''/x''), (RName ''a'', plainDef ''/y''), (RName ''b'', plainDef ''/x'')]
        (init examplePrototype ''/'' [])))
      = Some [entry ''a'' (plainDef ''/y''), entry ''b'' (plainDef ''/x'')]"
    by (simp add: route_eval chainOf_def)
  have 56: "map_of (routes (state_of (routeAll
        [(RName ''a'', plainDef ''/x''), (RName ''b'', plainDef ''/x''), (RName ''a'', plainDef ''/y'')]
        (init examplePrototype ''/'' [])))) ''x'' = Some (RName ''a'')
   \<and> chainOf ''a'' (state_of (routeAll
        [(RName ''a'', plainDef ''/x''), (RName ''b'', plainDef ''/x''), (RName ''a'', plainDef ''/y'')]
        (init examplePrototype ''/'' [])))
      = Some [entry ''a'' (plainDef ''/y'')]"
    by (simp add: route_eval chainOf_def)
  have 7: "map_of (routes (state_of (routeAll
        [(RName ''o'', plainDef ''/x''), (RName ''a'', plainDef ''/x''), (RName ''b'', plainDef ''/x'')]
        (init examplePrototype ''/'' [])))) ''x'' = Some (RName ''o'')"
    by (simp add: route_eval)
  show ?thesis using 12 34 56 7 8 by simp
qed

text \<open>
  The order of enumeration shows when one name holds two paths: \<open>path\<close> gives the path
  enumerated last, and \<open>start\<close> leaves the chain with the matcher of that path, which
  is not the path registered last when that one is an array index.
\<close>

lemma enumeration_order:
  "path (Some ''a'')
     (state_of (routeAll [(RName ''a'', plainDef ''/x''), (RName ''a'', plainDef ''/5'')]
        (init examplePrototype ''/'' []))) = Some ''x''
   \<and> exists None (Some ''x'')
       (state_of (start (\<lambda>template p. p = template) True exampleOptions
          (state_of (routeAll [(RName ''a'', plainDef ''/x''), (RName ''a'', plainDef ''/5'')]
             (init examplePrototype ''/'' [])))))
   \<and> \<not> exists None (Some ''5'')
       (state_of (start (\<lambda>template p. p = template) True exampleOptions
          (state_of (routeAll [(RName ''a'', plainDef ''/x''), (RName ''a'', plainDef ''/5'')]
             (init examplePrototype ''/'' [])))))"
proof -
  have r: "state_of (routeAll [(RName ''a'', plainDef ''/x''), (RName ''a'', plainDef ''/5'')]
             (init examplePrototype ''/'' []))
      = (init examplePrototype ''/'' [])\<lparr>routes := [(''x'', RName ''a''), (''5'', RName ''a'')],
          extendedRoutes := [(''x'', [''a'']), (''5'', [''a''])],
          extendedController := [(''a'', \<lparr>re = None, wrappers = [entry ''a'' (plainDef ''/5'')]\<rparr>)]\<rparr>"
    by (simp add: route_eval)
  show ?thesis
    unfolding r
    by (simp add: path_def start_def compileRoutes_def jsEntries_def arrayIndex_def digit_def
          exists_def truthy_def jsget_def init_def nameOf_RName Let_def)
qed

section \<open>Navigation\<close>

lemma closeController_events: "closeController (s\<lparr>events := e\<rparr>) = closeController s"
  by (rule ext) (simp add: closeController_def)

lemma runCloseControllers_guards:
  assumes "closeController s = cc"
    and "\<forall>(r, g) \<in> set (concat (map (\<lambda>route. case cc route of
                    None \<Rightarrow> []
                  | Some close \<Rightarrow> if name \<noteq> Some route then [(route, close)] else []) rs)).
           g name args opts \<noteq> None"
  shows "runCloseControllers name args opts rs c s =
     Returned
       (if concat (map (\<lambda>route. case cc route of
                    None \<Rightarrow> []
                  | Some close \<Rightarrow> if name \<noteq> Some route then [(route, close)] else []) rs) = []
        then c
        else snd (last (concat (map (\<lambda>route. case cc route of
                    None \<Rightarrow> []
                  | Some close \<Rightarrow> if name \<noteq> Some route then [(route, close)] else []) rs)))
               name args opts = Some True)
       (s\<lparr>events := events s @
            map (\<lambda>(r, g). EvClose r name args)
              (concat (map (\<lambda>route. case cc route of
                    None \<Rightarrow> []
                  | Some close \<Rightarrow> if name \<noteq> Some route then [(route, close)] else []) rs))\<rparr>)"
  using assms
proof (induction rs arbitrary: c s)
  case Nil
  then show ?case by simp
next
  case (Cons r rs)
  let ?G = "\<lambda>rs. concat (map (\<lambda>route. case cc route of
                    None \<Rightarrow> []
                  | Some close \<Rightarrow> if name \<noteq> Some route then [(route, close)] else []) rs)"
  have rest: "\<forall>(r, g) \<in> set (?G rs). g name args opts \<noteq> None" using Cons.prems(2) by auto
  show ?case
  proof (cases "cc r")
    case None
    then have "closeController s r = None" using Cons.prems(1) by auto
    then show ?thesis using Cons.IH[OF Cons.prems(1) rest] None by simp
  next
    case (Some close)
    then have cl: "closeController s r = Some close" using Cons.prems(1) by auto
    show ?thesis
    proof (cases "name = Some r")
      case True
      then show ?thesis using Cons.IH[OF Cons.prems(1) rest] Some cl by simp
    next
      case False
      then have "close name args opts \<noteq> None" using Cons.prems(2) Some by simp
      then obtain b where b: "close name args opts = Some b" by auto
      define s1 where "s1 = s\<lparr>events := events s @ [EvClose r name args]\<rparr>"
      have cc1: "closeController s1 = cc"
        unfolding s1_def using Cons.prems(1) by (simp add: closeController_events)
      have step: "runCloseControllers name args opts (r # rs) c s
                    = runCloseControllers name args opts rs b s1"
        using cl False b by (simp add: s1_def Let_def)
      have G: "?G (r # rs) = (r, close) # ?G rs" using Some False by simp
      show ?thesis
        unfolding step Cons.IH[OF cc1 rest] G
        using b by (cases "?G rs") (simp_all add: s1_def)
    qed
  qed
qed

lemma runCloseControllers_run:
  assumes "\<forall>(r, g) \<in> set (guardsRun name s). g name args opts \<noteq> None"
  shows "runCloseControllers name args opts (currentRoutes s) c s =
     Returned (if guardsRun name s = [] then c
               else snd (last (guardsRun name s)) name args opts = Some True)
       (s\<lparr>events := events s @ closeEvents name args s\<rparr>)"
  using runCloseControllers_guards[OF refl, of name s "currentRoutes s" args opts c] assms
  unfolding guardsRun_def closeEvents_def by simp


lemmas start_eval =
  start_def compileRoutes_def jsEntries_def arrayIndex_def digit_def exists_def Let_def

lemma examplePrototype_constructor:
  "map_of examplePrototype ''constructor'' = Some (snd (builtin ''constructor'' (\<lambda>name. Some True)))"
  by (simp add: examplePrototype_def browserPrototype_def builtin_def)

text \<open>
  C10, as amended. Once \<open>start\<close> has set \<open>this.options\<close>, a call \<open>go(x)\<close> from which
  neither a truthy name nor a truthy path comes (the path after its leading slash is removed)
  returns \<open>false\<close> and leaves the whole state as it was, the events with it: no \<open>404\<close>
  dispatch, no call of a close-guard, no change of the CurrentRouteStack, nothing handed to
  \<open>navigate\<close>. Before \<open>start\<close> the same call throws, because the branch logs through
  \<open>this.options.log\<close>.
\<close>

theorem go_missing_parameters:
  "options s \<noteq> None \<Longrightarrow> \<not> truthy (targetName target) \<Longrightarrow> \<not> truthy (targetPath target) \<Longrightarrow>
   go n target args opts s = Returned JFalse s"
  by (auto simp: go_def goBranch_def log_def)

lemma exampleGuards_eq:
  "exampleGuards ga gb =
   (init examplePrototype ''/x'' [])\<lparr>
    routes := [(''x'', RName ''a''), (''y'', RName ''c'')],
    extendedRoutes := [(''x'', [''a'', ''b'']), (''y'', [''c''])],
    extendedController :=
      [(''a'', \<lparr>re = Some (\<lambda>p. p = ''x''),
           wrappers =
             [entry ''a'' ((plainDef ''/x'')\<lparr>d_close := Some (\<lambda>name args opts. ga)\<rparr>),
              entry ''b'' ((plainDef ''/x'')\<lparr>d_close := Some (\<lambda>name args opts. gb)\<rparr>)]\<rparr>),
       (''b'', \<lparr>re = None,
           wrappers =
             [entry ''b'' ((plainDef ''/x'')\<lparr>d_close := Some (\<lambda>name args opts. gb)\<rparr>)]\<rparr>),
       (''c'', \<lparr>re = Some (\<lambda>p. p = ''y''), wrappers = [entry ''c'' (plainDef ''/y'')]\<rparr>)],
    closeControllers := [(''a'', \<lambda>name args opts. ga), (''b'', \<lambda>name args opts. gb)],
    currentRoutes := [''a'', ''b''],
    options := Some exampleOptions, dispatcher := True, router := True\<rparr>"
  by (simp add: exampleGuards_def route_eval start_eval eval_nat_numeral
        authGate_def log_def runAction_def)

lemma exampleInherited_eq:
  assumes "b \<noteq> ''a''" and "b \<noteq> ''c''" and "b \<noteq> ''__proto__''"
  shows "exampleInherited b =
   (init examplePrototype ''/x'' [])\<lparr>
    routes := [(''x'', RName ''a''), (''y'', RName ''c'')],
    extendedRoutes := [(''x'', [''a'', b]), (''y'', [''c''])],
    extendedController :=
      [(''a'', \<lparr>re = Some (\<lambda>p. p = ''x''),
           wrappers =
             [entry ''a'' ((plainDef ''/x'')\<lparr>d_close := Some (\<lambda>name args opts. False)\<rparr>),
              entry b (plainDef ''/x'')]\<rparr>),
       (b, \<lparr>re = None, wrappers = [entry b (plainDef ''/x'')]\<rparr>),
       (''c'', \<lparr>re = Some (\<lambda>p. p = ''y''), wrappers = [entry ''c'' (plainDef ''/y'')]\<rparr>)],
    closeControllers := [(''a'', \<lambda>name args opts. False)],
    currentRoutes := [''a'', b],
    options := Some exampleOptions, dispatcher := True, router := True\<rparr>"
  using assms
  by (simp add: exampleInherited_def route_eval start_eval eval_nat_numeral
        authGate_def log_def runAction_def)

lemma examplePrototype_defineGetter:
  "map_of examplePrototype ''__defineGetter__''
     = Some (snd (builtin ''__defineGetter__'' (\<lambda>name. None)))"
  by (simp add: examplePrototype_def browserPrototype_def builtin_def)

lemma exampleGuards_closeEvents:
  "closeEvents name args (exampleGuards ga gb) =
     (if name \<noteq> Some ''a'' then [EvClose ''a'' name args] else [])
     @ (if name \<noteq> Some ''b'' then [EvClose ''b'' name args] else [])"
  by (simp add: closeEvents_def guardsRun_def closeController_def jsget_def exampleGuards_eq
        init_def)

theorem go_missing_parameters_witness:
  "options (exampleGuards True False) \<noteq> None
   \<and> \<not> truthy (targetName (Route None (Some ''/'') None))
   \<and> \<not> truthy (targetPath (Route None (Some ''/'') None))
   \<and> closeEvents None None (exampleGuards True False)
       = [EvClose ''a'' None None, EvClose ''b'' None None]
   \<and> go 3 (Route None (Some ''/'') None) None noOpts (exampleGuards True False)
       = Returned JFalse (exampleGuards True False)"
proof -
  have 1: "options (exampleGuards True False) \<noteq> None" by (simp add: exampleGuards_eq init_def)
  have 2: "\<not> truthy (targetName (Route None (Some ''/'') None))" by (simp add: truthy_def)
  have 3: "\<not> truthy (targetPath (Route None (Some ''/'') None))" by (simp add: truthy_def stripSlash_def)
  have 4: "closeEvents None None (exampleGuards True False)
       = [EvClose ''a'' None None, EvClose ''b'' None None]"
    by (simp add: exampleGuards_closeEvents)
  show ?thesis using 1 2 3 4 go_missing_parameters[OF 1 2 3, of 3 None noOpts] by simp
qed

theorem go_missing_parameters_counterexample:
  "go 3 (Name None) None noOpts (init examplePrototype ''/'' [])
     = Thrown TypeError (init examplePrototype ''/'' [])"
  by (simp add: go_def goBranch_def truthy_def log_def init_def)

text \<open>
  C2, as amended. On a router whose options are set, \<open>go\<close> to a truthy name under which
  \<open>extendedController\<close> holds nothing, neither a registered chain nor a member inherited
  from \<open>Object.prototype\<close>, does what one call \<open>processControllers("404", [raw path])\<close>
  does, the raw path being the current location without its first character: it leaves the
  state that this one dispatch leaves, and it throws exactly when the dispatch throws, which
  it does when no route \<open>404\<close> is registered. (The value returned is left out of the
  statement.)
\<close>

theorem go_not_found:
  "options s = Some o' \<Longrightarrow> truthy (targetName target) \<Longrightarrow> \<not> exists (targetName target) None s \<Longrightarrow>
   state_of (go n target args opts s)
     = state_of (processControllers n ''404'' (Some [Str (rawPath o' s)]) False s)
   \<and> throws (go n target args opts s)
     = throws (processControllers n ''404'' (Some [Str (rawPath o' s)]) False s)"
  by (cases "processControllers n ''404'' (Some [Str (rawPath o' s)]) False s")
     (simp_all add: go_def goBranch_def goNotFound_def log_def withOptions_def)

lemma exampleNotFound_eq:
  "exampleNotFound =
   (init examplePrototype ''/nowhere'' [])\<lparr>
    routes := [(''lost'', RName ''404'')], extendedRoutes := [(''lost'', [''404''])],
    extendedController :=
      [(''404'', \<lparr>re = Some (\<lambda>p. p = ''lost''),
           wrappers = [entry ''404'' ((plainDef ''/lost'')\<lparr>d_action := Invoke ''notFound''\<rparr>)]\<rparr>)],
    options := Some exampleOptions, dispatcher := True, router := True\<rparr>"
  by (simp add: exampleNotFound_def route_eval start_eval)

theorem go_not_found_witness:
  "options exampleNotFound = Some exampleOptions
   \<and> truthy (targetName (Name (Some ''nowhere'')))
   \<and> \<not> exists (targetName (Name (Some ''nowhere''))) None exampleNotFound
   \<and> go 3 (Name (Some ''nowhere'')) None noOpts exampleNotFound
       = Returned JUndefined
           (exampleNotFound\<lparr>currentRoutes := [''404''],
              events := [EvAction ''notFound'' [Str ''nowhere'']]\<rparr>)
   \<and> state_of (go 3 (Name (Some ''nowhere'')) None noOpts exampleNotFound)
       = state_of (processControllers 3 ''404'' (Some [Str (rawPath exampleOptions exampleNotFound)])
           False exampleNotFound)"
proof -
  have 1: "options exampleNotFound = Some exampleOptions" by (simp add: exampleNotFound_eq init_def)
  have 2: "truthy (targetName (Name (Some ''nowhere'')))" by (simp add: truthy_def)
  have 3: "\<not> exists (targetName (Name (Some ''nowhere''))) None exampleNotFound"
    by (simp add: exampleNotFound_eq exists_def truthy_def jsget_def init_def
          examplePrototype_absent)
  have 4: "go 3 (Name (Some ''nowhere'')) None noOpts exampleNotFound
       = Returned JUndefined
           (exampleNotFound\<lparr>currentRoutes := [''404''],
              events := [EvAction ''notFound'' [Str ''nowhere'']]\<rparr>)"
    by (simp add: go_def goBranch_def goNotFound_def log_def withOptions_def exampleNotFound_eq
          exists_def truthy_def eval_nat_numeral authGate_def runAction_def rawPath_def
          exampleOptions_def jsget_def init_def examplePrototype_absent entry_def plainDef_def
          Let_def stripSlash_def)
  show ?thesis using 1 2 3 4 go_not_found[OF 1 2 3, of 3 None noOpts] by simp
qed

theorem go_not_found_counterexample:
  "go 3 (Name (Some ''nowhere'')) None noOpts exampleStarted = Thrown TypeError exampleStarted
   \<and> map_of (extendedController exampleNotFound) ''constructor'' = None
   \<and> go 3 (Name (Some ''constructor'')) None noOpts exampleNotFound
       = Returned JTrue exampleNotFound
   \<and> go 3 (Name (Some [])) None noOpts exampleNotFound = Returned JFalse exampleNotFound
   \<and> go 3 (Name (Some ''nowhere'')) None noOpts
         (state_of (route (RName ''404'') ((plainDef ''/lost'')\<lparr>d_action := Invoke ''notFound''\<rparr>)
            (init examplePrototype ''/nowhere'' [])))
       = Thrown TypeError
           (state_of (route (RName ''404'') ((plainDef ''/lost'')\<lparr>d_action := Invoke ''notFound''\<rparr>)
              (init examplePrototype ''/nowhere'' [])))"
proof -
  have 1: "go 3 (Name (Some ''nowhere'')) None noOpts exampleStarted = Thrown TypeError exampleStarted"
    by (simp add: go_def goBranch_def goNotFound_def log_def withOptions_def exampleStarted_eq
        init_def exists_def truthy_def eval_nat_numeral jsget_def examplePrototype_absent)
  have 2: "map_of (extendedController exampleNotFound) ''constructor'' = None"
    by (simp add: exampleNotFound_eq init_def)
  have 3: "go 3 (Name (Some ''constructor'')) None noOpts exampleNotFound
       = Returned JTrue exampleNotFound"
    by (simp add: go_def goBranch_def goProceed_def exampleNotFound_eq init_def exists_def
          truthy_def jsget_def examplePrototype_constructor path_def jsEntries_def
          arrayIndex_def digit_def)
  have 4: "go 3 (Name (Some [])) None noOpts exampleNotFound = Returned JFalse exampleNotFound"
    by (simp add: go_def goBranch_def truthy_def log_def exampleNotFound_eq init_def)
  have r: "state_of (route (RName ''404'') ((plainDef ''/lost'')\<lparr>d_action := Invoke ''notFound''\<rparr>)
            (init examplePrototype ''/nowhere'' []))
      = (init examplePrototype ''/nowhere'' [])\<lparr>
          routes := [(''lost'', RName ''404'')], extendedRoutes := [(''lost'', [''404''])],
          extendedController :=
            [(''404'', \<lparr>re = None,
                wrappers = [entry ''404'' ((plainDef ''/lost'')\<lparr>d_action := Invoke ''notFound''\<rparr>)]\<rparr>)]\<rparr>"
    by (simp add: route_eval)
  have 5: "go 3 (Name (Some ''nowhere'')) None noOpts
         (state_of (route (RName ''404'') ((plainDef ''/lost'')\<lparr>d_action := Invoke ''notFound''\<rparr>)
            (init examplePrototype ''/nowhere'' [])))
       = Thrown TypeError
           (state_of (route (RName ''404'') ((plainDef ''/lost'')\<lparr>d_action := Invoke ''notFound''\<rparr>)
              (init examplePrototype ''/nowhere'' [])))"
    unfolding r
    by (simp add: go_def goBranch_def goNotFound_def log_def init_def exists_def truthy_def
          jsget_def examplePrototype_absent)
  show ?thesis by (intro conjI 1 2 3 4 5)
qed

text \<open>
  C1, as amended. In a call of \<open>go\<close> whose target exists, when at least one close-guard
  is called, none of the guards called throws, and the last one called returns a falsy
  value, \<open>go\<close> returns \<open>false\<close> and the state is as before but for the record of the
  guards that were called: the CurrentRouteStack is not reset and nothing is handed to
  \<open>navigate\<close>. The guards called are those of the routes of the CurrentRouteStack that
  differ from the target name, where the guard of a route is the one registered for it or,
  when none is, the function that \<open>Object.prototype\<close> holds under the route's name. A guard
  that returns false earlier in the stack is overruled by a later one that returns true.
\<close>

theorem go_last_guard_vetoes:
  "goBranch (targetName target) (targetPath target) s = Proceed \<Longrightarrow>
   guardsRun (targetName target) s \<noteq> [] \<Longrightarrow>
   \<forall>(r, g) \<in> set (guardsRun (targetName target) s).
      g (targetName target) (targetArgs target args) opts \<noteq> None \<Longrightarrow>
   snd (last (guardsRun (targetName target) s)) (targetName target) (targetArgs target args) opts
     = Some False \<Longrightarrow>
   go n target args opts s
     = Returned JFalse
         (s\<lparr>events := events s @ closeEvents (targetName target) (targetArgs target args) s\<rparr>)"
  by (simp add: go_def goProceed_def runCloseControllers_run)


lemma exampleGuards_guards:
  "map (\<lambda>(r, g). (r, g (Some ''c'') None noOpts)) (guardsRun (Some ''c'') (exampleGuards ga gb))
     = [(''a'', Some ga), (''b'', Some gb)]"
  by (simp add: guardsRun_def closeController_def jsget_def exampleGuards_eq init_def)

lemma exampleGuards_Proceed:
  "goBranch (Some ''c'') None (exampleGuards ga gb) = Proceed"
  by (simp add: goBranch_def truthy_def exists_def jsget_def exampleGuards_eq init_def)

theorem go_last_guard_vetoes_witness:
  "goBranch (targetName (Name (Some ''c''))) (targetPath (Name (Some ''c''))) (exampleGuards True False)
     = Proceed
   \<and> map (\<lambda>(r, g). (r, g (Some ''c'') None noOpts)) (guardsRun (Some ''c'') (exampleGuards True False))
       = [(''a'', Some True), (''b'', Some False)]
   \<and> go 3 (Name (Some ''c'')) None noOpts (exampleGuards True False)
       = Returned JFalse
           ((exampleGuards True False)
              \<lparr>events := [EvClose ''a'' (Some ''c'') None, EvClose ''b'' (Some ''c'') None]\<rparr>)"
proof -
  let ?s = "exampleGuards True False"
  let ?t = "Name (Some ''c'')"
  have g: "guardsRun (Some ''c'') ?s
      = [(''a'', \<lambda>name args opts. Some True), (''b'', \<lambda>name args opts. Some False)]"
    by (simp add: guardsRun_def closeController_def jsget_def exampleGuards_eq init_def)
  have 1: "goBranch (targetName ?t) (targetPath ?t) ?s = Proceed"
    by (simp add: exampleGuards_Proceed)
  have 2: "guardsRun (targetName ?t) ?s \<noteq> []" by (simp add: g)
  have 3: "\<forall>(r, g) \<in> set (guardsRun (targetName ?t) ?s).
             g (targetName ?t) (targetArgs ?t None) noOpts \<noteq> None"
    by (auto simp: g)
  have 4: "snd (last (guardsRun (targetName ?t) ?s)) (targetName ?t) (targetArgs ?t None) noOpts
             = Some False"
    by (simp add: g)
  have e: "events ?s = []" by (simp add: exampleGuards_eq init_def)
  have 5: "map (\<lambda>(r, g). (r, g (Some ''c'') None noOpts)) (guardsRun (Some ''c'') ?s)
       = [(''a'', Some True), (''b'', Some False)]"
    by (rule exampleGuards_guards)
  show ?thesis
    using 1 5 go_last_guard_vetoes[OF 1 2 3 4, of 3]
    by (simp add: exampleGuards_closeEvents e)
qed

theorem go_any_guard_counterexample:
  "currentRoutes (exampleGuards False True) = [''a'', ''b'']
   \<and> map (\<lambda>(r, g). (r, g (Some ''c'') None noOpts)) (guardsRun (Some ''c'') (exampleGuards False True))
       = [(''a'', Some False), (''b'', Some True)]
   \<and> go 3 (Name (Some ''c'')) None noOpts (exampleGuards False True)
       = Returned JTrue
           ((exampleGuards False True)\<lparr>currentRoutes := [],
              events := [EvClose ''a'' (Some ''c'') None, EvClose ''b'' (Some ''c'') None,
                         EvNavigate ''y'' True False]\<rparr>)
   \<and> currentRoutes (exampleInherited ''constructor'') = [''a'', ''constructor'']
   \<and> closeControllers (exampleInherited ''constructor'') = [(''a'', \<lambda>name args opts. False)]
   \<and> go 3 (Name (Some ''c'')) None noOpts (exampleInherited ''constructor'')
       = Returned JTrue
           ((exampleInherited ''constructor'')\<lparr>currentRoutes := [],
              events := [EvClose ''a'' (Some ''c'') None, EvClose ''constructor'' (Some ''c'') None,
                         EvNavigate ''y'' True False]\<rparr>)
   \<and> currentRoutes (exampleInherited ''__defineGetter__'') = [''a'', ''__defineGetter__'']
   \<and> closeControllers (exampleInherited ''__defineGetter__'') = [(''a'', \<lambda>name args opts. False)]
   \<and> go 3 (Name (Some ''c'')) None noOpts (exampleInherited ''__defineGetter__'')
       = Thrown TypeError
           ((exampleInherited ''__defineGetter__'')
              \<lparr>events := [EvClose ''a'' (Some ''c'') None,
                          EvClose ''__defineGetter__'' (Some ''c'') None]\<rparr>)"
proof -
  have 1: "currentRoutes (exampleGuards False True) = [''a'', ''b'']"
    by (simp add: exampleGuards_eq init_def)
  have 2: "map (\<lambda>(r, g). (r, g (Some ''c'') None noOpts)) (guardsRun (Some ''c'') (exampleGuards False True))
       = [(''a'', Some False), (''b'', Some True)]"
    by (rule exampleGuards_guards)
  have 3: "go 3 (Name (Some ''c'')) None noOpts (exampleGuards False True)
       = Returned JTrue
           ((exampleGuards False True)\<lparr>currentRoutes := [],
              events := [EvClose ''a'' (Some ''c'') None, EvClose ''b'' (Some ''c'') None,
                         EvNavigate ''y'' True False]\<rparr>)"
    by (simp add: exampleGuards_eq go_def goBranch_def goProceed_def truthy_def exists_def
          closeController_def jsget_def init_def path_def jsEntries_def arrayIndex_def digit_def
          parse_def navigate_def noOpts_def Let_def)
  have c: "exampleInherited ''constructor'' =
   (init examplePrototype ''/x'' [])\<lparr>
    routes := [(''x'', RName ''a''), (''y'', RName ''c'')],
    extendedRoutes := [(''x'', [''a'', ''constructor'']), (''y'', [''c''])],
    extendedController :=
      [(''a'', \<lparr>re = Some (\<lambda>p. p = ''x''),
           wrappers =
             [entry ''a'' ((plainDef ''/x'')\<lparr>d_close := Some (\<lambda>name args opts. False)\<rparr>),
              entry ''constructor'' (plainDef ''/x'')]\<rparr>),
       (''constructor'', \<lparr>re = None, wrappers = [entry ''constructor'' (plainDef ''/x'')]\<rparr>),
       (''c'', \<lparr>re = Some (\<lambda>p. p = ''y''), wrappers = [entry ''c'' (plainDef ''/y'')]\<rparr>)],
    closeControllers := [(''a'', \<lambda>name args opts. False)],
    currentRoutes := [''a'', ''constructor''],
    options := Some exampleOptions, dispatcher := True, router := True\<rparr>"
    by (rule exampleInherited_eq) simp_all
  have d: "exampleInherited ''__defineGetter__'' =
   (init examplePrototype ''/x'' [])\<lparr>
    routes := [(''x'', RName ''a''), (''y'', RName ''c'')],
    extendedRoutes := [(''x'', [''a'', ''__defineGetter__'']), (''y'', [''c''])],
    extendedController :=
      [(''a'', \<lparr>re = Some (\<lambda>p. p = ''x''),
           wrappers =
             [entry ''a'' ((plainDef ''/x'')\<lparr>d_close := Some (\<lambda>name args opts. False)\<rparr>),
              entry ''__defineGetter__'' (plainDef ''/x'')]\<rparr>),
       (''__defineGetter__'',
          \<lparr>re = None, wrappers = [entry ''__defineGetter__'' (plainDef ''/x'')]\<rparr>),
       (''c'', \<lparr>re = Some (\<lambda>p. p = ''y''), wrappers = [entry ''c'' (plainDef ''/y'')]\<rparr>)],
    closeControllers := [(''a'', \<lambda>name args opts. False)],
    currentRoutes := [''a'', ''__defineGetter__''],
    options := Some exampleOptions, dispatcher := True, router := True\<rparr>"
    by (rule exampleInherited_eq) simp_all
  have 4: "currentRoutes (exampleInherited ''constructor'') = [''a'', ''constructor'']"
    by (simp add: c init_def)
  have 5: "closeControllers (exampleInherited ''constructor'') = [(''a'', \<lambda>name args opts. False)]"
    by (simp add: c init_def)
  have 6: "go 3 (Name (Some ''c'')) None noOpts (exampleInherited ''constructor'')
       = Returned JTrue
           ((exampleInherited ''constructor'')\<lparr>currentRoutes := [],
              events := [EvClose ''a'' (Some ''c'') None, EvClose ''constructor'' (Some ''c'') None,
                         EvNavigate ''y'' True False]\<rparr>)"
    unfolding c
    by (simp add: go_def goBranch_def goProceed_def truthy_def exists_def
          closeController_def jsget_def init_def path_def jsEntries_def arrayIndex_def digit_def
          parse_def navigate_def noOpts_def examplePrototype_constructor builtin_def Let_def)
  have 7: "currentRoutes (exampleInherited ''__defineGetter__'') = [''a'', ''__defineGetter__'']"
    by (simp add: d init_def)
  have 8: "closeControllers (exampleInherited ''__defineGetter__'') = [(''a'', \<lambda>name args opts. False)]"
    by (simp add: d init_def)
  have 9: "go 3 (Name (Some ''c'')) None noOpts (exampleInherited ''__defineGetter__'')
       = Thrown TypeError
           ((exampleInherited ''__defineGetter__'')
              \<lparr>events := [EvClose ''a'' (Some ''c'') None,
                          EvClose ''__defineGetter__'' (Some ''c'') None]\<rparr>)"
    unfolding d
    by (simp add: go_def goBranch_def goProceed_def truthy_def exists_def
          closeController_def jsget_def init_def examplePrototype_defineGetter builtin_def Let_def)
  show ?thesis by (intro conjI 1 2 3 4 5 6 7 8 9)
qed

section \<open>Auth gate, aliases and triggers that name routes\<close>

lemma authGate_fails:
  assumes "options s = Some opts" and "\<not> o_authed opts" and "d_authed def = Some True"
  shows "authGate def s = Returned (if o_redirectToLogin opts then ToLogin else To403) s"
  using assms by (simp add: authGate_def withOptions_def)

lemma entered_options: "options (entered trigger w s) = options s"
  by (simp add: entered_def)

lemma gate_blocked:
  assumes "options s = Some opts" and "\<not> o_authed opts" and "d_authed (w_def w) = Some True"
  shows "controllerWrapper (Suc n) w args trigger s =
      (if o_redirectToLogin opts
       then processControllers n ''login'' None False
              ((entered trigger w s)\<lparr>stored := Some (rawPath opts (entered trigger w s))\<rparr>)
       else processControllers n ''403'' (Some [Str (rawPath opts (entered trigger w s))]) False
              (entered trigger w s))"
proof -
  have o: "options (entered trigger w s) = Some opts" using assms(1) by (simp add: entered_options)
  have g: "authGate (w_def w) (entered trigger w s)
             = Returned (if o_redirectToLogin opts then ToLogin else To403) (entered trigger w s)"
    using o assms(2,3) by (rule authGate_fails)
  show ?thesis
    unfolding controllerWrapper_entered g
    using o by (simp add: log_def withOptions_def storeCurrentRoute_def)
qed

lemma exampleApp_eq:
  "exampleApp =
   (init examplePrototype ''/admin'' [])\<lparr>
    routes := [([], RName ''home''), (''admin'', RName ''admin''), (''403'', RName ''403''),
       (''index'', RName ''index''), (''vault'', RName ''vault'')],
    extendedRoutes := [([], [''home'']), (''admin'', [''admin'']), (''403'', [''403'']),
       (''index'', [''index'']), (''vault'', [''vault''])],
    extendedController :=
      [(''home'', \<lparr>re = Some (\<lambda>p. p = []), wrappers = [entry ''home'' homeDef]\<rparr>),
       (''admin'', \<lparr>re = Some (\<lambda>p. p = ''admin''), wrappers = [entry ''admin'' adminDef]\<rparr>),
       (''403'', \<lparr>re = Some (\<lambda>p. p = ''403''), wrappers = [entry ''403'' forbiddenDef]\<rparr>),
       (''index'', \<lparr>re = Some (\<lambda>p. p = ''index''), wrappers = [entry ''index'' indexDef]\<rparr>),
       (''vault'', \<lparr>re = Some (\<lambda>p. p = ''vault''), wrappers = [entry ''vault'' vaultDef]\<rparr>)],
    options := Some exampleOptions, dispatcher := True, router := True\<rparr>"
  by (simp add: exampleApp_def route_eval start_eval
        homeDef_def adminDef_def forbiddenDef_def indexDef_def vaultDef_def)

lemmas example_eval =
  exampleApp_eq homeDef_def adminDef_def forbiddenDef_def indexDef_def vaultDef_def
  entry_def plainDef_def stripSlash_def exampleOptions_def
  eval_nat_numeral authGate_def withOptions_def log_def runAction_def rawPath_def dispatch_def
  exists_def truthy_def entered_def storeCurrentRoute_def jsget_def init_def
  examplePrototype_absent Let_def

text \<open>
  C4. An entry of a route with \<open>authed = true\<close>, invoked while the session is logged out,
  does one thing after it has entered: it dispatches \<open>login\<close> (with
  \<open>redirectToLogin\<close>, after storing the current path) or else \<open>403\<close> with the raw
  path as the only argument, once. Its own \<open>before\<close> triggers, action and \<open>after\<close>
  triggers have no part in the outcome: the entry does the same whatever they are.
\<close>

theorem auth_gate_blocks:
  "options s = Some opts \<Longrightarrow> \<not> o_authed opts \<Longrightarrow> d_authed (w_def w) = Some True \<Longrightarrow>
   controllerWrapper (Suc n) w args trigger s =
      (if o_redirectToLogin opts
       then processControllers n ''login'' None False
              ((entered trigger w s)\<lparr>stored := Some (rawPath opts (entered trigger w s))\<rparr>)
       else processControllers n ''403'' (Some [Str (rawPath opts (entered trigger w s))]) False
              (entered trigger w s))
   \<and> controllerWrapper (Suc n) (withSteps b a af w) args trigger s
       = controllerWrapper (Suc n) w args trigger s"
proof -
  assume a: "options s = Some opts" "\<not> o_authed opts" "d_authed (w_def w) = Some True"
  have 1: "d_authed (w_def (withSteps b a af w)) = Some True" using a(3) by (simp add: withSteps_def)
  have 2: "entered trigger (withSteps b a af w) s = entered trigger w s"
    by (simp add: entered_def withSteps_def)
  show ?thesis
    unfolding gate_blocked[OF a] gate_blocked[OF a(1,2) 1] 2 by simp
qed

theorem auth_gate_blocks_witness:
  "controllerWrapper 3 (entry ''admin'' adminDef) [] False exampleApp
       = Returned () (exampleApp\<lparr>currentRoutes := [''admin'', ''403''],
                        events := [EvAction ''forbidden'' [Str ''admin'']]\<rparr>)
   \<and> controllerWrapper 3 (withSteps [] NoAction [] (entry ''admin'' adminDef)) [] False exampleApp
       = controllerWrapper 3 (entry ''admin'' adminDef) [] False exampleApp"
proof -
  have 1: "options exampleApp = Some exampleOptions" by (simp add: exampleApp_eq init_def)
  have 2: "\<not> o_authed exampleOptions" by (simp add: exampleOptions_def)
  have 3: "d_authed (w_def (entry ''admin'' adminDef)) = Some True"
    by (simp add: entry_def adminDef_def)
  have 4: "(if o_redirectToLogin exampleOptions
       then processControllers 2 ''login'' None False
              ((entered False (entry ''admin'' adminDef) exampleApp)
                 \<lparr>stored := Some (rawPath exampleOptions
                      (entered False (entry ''admin'' adminDef) exampleApp))\<rparr>)
       else processControllers 2 ''403''
              (Some [Str (rawPath exampleOptions (entered False (entry ''admin'' adminDef) exampleApp))])
              False (entered False (entry ''admin'' adminDef) exampleApp))
           = Returned () (exampleApp\<lparr>currentRoutes := [''admin'', ''403''],
                        events := [EvAction ''forbidden'' [Str ''admin'']]\<rparr>)"
    by (simp add: example_eval)
  have n: "3 = Suc 2" by simp
  note th = auth_gate_blocks[OF 1 2 3, of 2 "[]" False "[]" NoAction "[]", folded n]
  have a: "controllerWrapper 3 (entry ''admin'' adminDef) [] False exampleApp
       = Returned () (exampleApp\<lparr>currentRoutes := [''admin'', ''403''],
                        events := [EvAction ''forbidden'' [Str ''admin'']]\<rparr>)"
    using th[THEN conjunct1] 4 by (rule trans)
  show ?thesis by (intro conjI a th[THEN conjunct2])
qed

text \<open>
  C6, as amended. On a router whose options are set, an entry whose action names another
  route, and whose own auth gate passes (\<open>authed\<close> unset or equal to the session's), does
  one thing after it has entered: it dispatches the target's whole chain by
  \<open>processControllers(target, args, true)\<close>, each entry of which runs its own gate. The
  alias's own \<open>before\<close> and \<open>after\<close> triggers have no part in the outcome. An alias
  whose own gate fails dispatches \<open>403\<close> or \<open>login\<close> and not the target.
\<close>

theorem alias_delegates:
  "options s = Some opts \<Longrightarrow> d_action (w_def w) = AliasTo target \<Longrightarrow>
   d_authed (w_def w) = None \<or> d_authed (w_def w) = Some (o_authed opts) \<Longrightarrow>
   controllerWrapper (Suc n) w args trigger s
     = processControllers n target (Some args) True (entered trigger w s)
   \<and> controllerWrapper (Suc n) (withSteps b (AliasTo target) af w) args trigger s
     = controllerWrapper (Suc n) w args trigger s"
proof -
  assume a: "options s = Some opts" "d_action (w_def w) = AliasTo target"
    "d_authed (w_def w) = None \<or> d_authed (w_def w) = Some (o_authed opts)"
  have o: "options (entered trigger w s) = Some opts" using a(1) by (simp add: entered_options)
  have g: "authGate (w_def w) (entered trigger w s) = Returned Pass (entered trigger w s)"
    using a(3) o by (auto simp: authGate_def withOptions_def)
  have 1: "controllerWrapper (Suc n) w args trigger s
     = processControllers n target (Some args) True (entered trigger w s)"
    unfolding controllerWrapper_entered g using a(2) o by (simp add: log_def)
  have e: "entered trigger (withSteps b (AliasTo target) af w) s = entered trigger w s"
    by (simp add: entered_def withSteps_def)
  have g': "authGate (w_def (withSteps b (AliasTo target) af w)) (entered trigger w s)
              = Returned Pass (entered trigger w s)"
    using a(3) o by (auto simp: authGate_def withOptions_def withSteps_def)
  have 2: "controllerWrapper (Suc n) (withSteps b (AliasTo target) af w) args trigger s
     = processControllers n target (Some args) True (entered trigger w s)"
    unfolding controllerWrapper_entered e g' using o by (simp add: log_def withSteps_def)
  show ?thesis using 1 2 by simp
qed

theorem alias_delegates_witness:
  "controllerWrapper 6 (entry ''index'' indexDef) [Str ''7''] False exampleApp
       = processControllers 5 ''home'' (Some [Str ''7'']) True
           (entered False (entry ''index'' indexDef) exampleApp)
   \<and> controllerWrapper 6 (entry ''index'' indexDef) [Str ''7''] False exampleApp
       = Returned () (exampleApp\<lparr>currentRoutes := [''index''],
            events := [EvTrigger ''core:display'' [], EvAction ''showHome'' [Str ''7'']]\<rparr>)
   \<and> controllerWrapper 6 (withSteps [] (AliasTo ''home'') [] (entry ''index'' indexDef))
         [Str ''7''] False exampleApp
       = controllerWrapper 6 (entry ''index'' indexDef) [Str ''7''] False exampleApp"
proof -
  have 1: "options exampleApp = Some exampleOptions" by (simp add: exampleApp_eq init_def)
  have 2: "d_action (w_def (entry ''index'' indexDef)) = AliasTo ''home''"
    by (simp add: entry_def indexDef_def)
  have 3: "d_authed (w_def (entry ''index'' indexDef)) = None
           \<or> d_authed (w_def (entry ''index'' indexDef)) = Some (o_authed exampleOptions)"
    by (simp add: entry_def indexDef_def plainDef_def)
  have 4: "processControllers 5 ''home'' (Some [Str ''7'']) True
             (entered False (entry ''index'' indexDef) exampleApp)
       = Returned () (exampleApp\<lparr>currentRoutes := [''index''],
            events := [EvTrigger ''core:display'' [], EvAction ''showHome'' [Str ''7'']]\<rparr>)"
    by (simp add: example_eval)
  have n: "6 = Suc 5" by simp
  note th = alias_delegates[OF 1 2 3, of 5 "[Str ''7'']" False "[]" "[]", folded n]
  have a: "controllerWrapper 6 (entry ''index'' indexDef) [Str ''7''] False exampleApp
       = Returned () (exampleApp\<lparr>currentRoutes := [''index''],
            events := [EvTrigger ''core:display'' [], EvAction ''showHome'' [Str ''7'']]\<rparr>)"
    using th[THEN conjunct1] 4 by (rule trans)
  show ?thesis by (intro conjI th[THEN conjunct1] a th[THEN conjunct2])
qed

theorem alias_delegates_counterexample:
  "d_action (w_def (entry ''vault'' vaultDef)) = AliasTo ''home''
   \<and> controllerWrapper 6 (entry ''vault'' vaultDef) [] False exampleApp
       = Returned () (exampleApp\<lparr>currentRoutes := [''vault'', ''403''],
            events := [EvAction ''forbidden'' [Str ''admin'']]\<rparr>)
   \<and> processControllers 5 ''home'' (Some []) True (entered False (entry ''vault'' vaultDef) exampleApp)
       = Returned () (exampleApp\<lparr>currentRoutes := [''vault''],
            events := [EvTrigger ''core:display'' [], EvAction ''showHome'' []]\<rparr>)"
  by (simp add: example_eval)







section \<open>Before \<open>start\<close>\<close>

lemma list_all_jsput:
  "list_all P al \<Longrightarrow> P (k, v) \<Longrightarrow> list_all P (jsput k v al)"
  by (induction al) auto

lemma uncompiled_chain:
  "uncompiled s \<Longrightarrow> map_of (extendedController s) name = Some c \<Longrightarrow> re c = None"
  by (auto simp: uncompiled_def list_all_iff dest: map_of_SomeD)

lemma uncompiled_route:
  assumes "uncompiled s"
  shows "uncompiled (state_of (route name def s))"
proof (cases "pathTaken (routeKey def) s")
  case False
  then show ?thesis using assms by (simp add: route_unbound uncompiled_def list_all_jsput)
next
  case True
  show ?thesis
  proof (cases "map_of (extendedRoutes s) (routeKey def)")
    case None
    then show ?thesis using assms by (simp add: route_taken[OF True] uncompiled_def)
  next
    case (Some names)
    show ?thesis
    proof (cases "map_of (extendedController s) (nameKey (holder (routeKey def) s))")
      case None
      then show ?thesis using assms Some by (simp add: route_taken[OF True] uncompiled_def)
    next
      case c: (Some c)
      have "re c = None" using assms c by (rule uncompiled_chain)
      then show ?thesis using assms Some c
        by (simp add: route_taken[OF True] uncompiled_def list_all_jsput)
    qed
  qed
qed

lemma uncompiled_static: "static s' = static s \<Longrightarrow> uncompiled s' = uncompiled s"
  using static_extendedController[of s' s] by (simp add: uncompiled_def)

lemma runCloseControllers_static:
  "static (state_of (runCloseControllers name args opts rs c s)) = static s"
proof (induction rs arbitrary: c s)
  case Nil
  show ?case by simp
next
  case (Cons r rs)
  have e: "static (s\<lparr>events := e\<rparr>) = static s" for e by (simp add: static_def)
  show ?case
  proof (cases "closeController s r")
    case None
    then show ?thesis using Cons by simp
  next
    case (Some close)
    show ?thesis
    proof (cases "name = Some r")
      case True
      then show ?thesis using Some Cons by simp
    next
      case False
      show ?thesis
      proof (cases "close name args opts")
        case None
        then show ?thesis using Some False by (simp add: e)
      next
        case b: (Some b)
        have "static (state_of (runCloseControllers name args opts rs b
                 (s\<lparr>events := events s @ [EvClose r name args]\<rparr>))) = static s"
          using Cons[of b "s\<lparr>events := events s @ [EvClose r name args]\<rparr>"] by (simp add: e)
        then show ?thesis using Some False b by simp
      qed
    qed
  qed
qed

lemma navigate_static: "static (state_of (and_then (navigate p opts s) (Returned JTrue))) = static s"
  by (simp add: navigate_def static_def)

lemma goProceed_static: "static (state_of (goProceed name path0 args opts s)) = static s"
proof (cases "runCloseControllers name args opts (currentRoutes s) True s")
  case (Thrown e s')
  have "static s' = static s" using runCloseControllers_static[of name args opts "currentRoutes s" True s] Thrown
    by simp
  then show ?thesis using Thrown by (simp add: goProceed_def)
next
  case (Returned c s')
  have st: "static s' = static s"
    using runCloseControllers_static[of name args opts "currentRoutes s" True s] Returned by simp
  define s1 where "s1 = s'\<lparr>currentRoutes := []\<rparr>"
  have s1: "static s1 = static s" using st by (simp add: s1_def static_def)
  have nav: "static (state_of (and_then (navigate p opts s1) (Returned JTrue))) = static s" for p
    using s1 by (simp add: navigate_static)
  show ?thesis
  proof (cases c)
    case False
    then show ?thesis using Returned st by (simp add: goProceed_def)
  next
    case True
    show ?thesis
    proof (cases "truthy path0")
      case False
      show ?thesis
      proof (cases "path name s1")
        case None
        show ?thesis
        proof (cases args)
          case None
          then show ?thesis
            using Returned True False \<open>path name s1 = None\<close> s1 unfolding s1_def
            by (simp add: goProceed_def Let_def)
        next
          case (Some as)
          then show ?thesis
            using Returned True False \<open>path name s1 = None\<close> s1 unfolding s1_def
            by (simp add: goProceed_def Let_def)
        qed
      next
        case (Some p)
        then show ?thesis
          using Returned True False nav[of "parse p args"] unfolding s1_def
          by (simp add: goProceed_def Let_def)
      qed
    next
      case tp: True
      show ?thesis
      proof (cases path0)
        case None
        then show ?thesis using Returned True tp s1 unfolding s1_def
          by (simp add: goProceed_def Let_def)
      next
        case (Some p)
        then show ?thesis using Returned True tp nav[of p] unfolding s1_def
          by (simp add: goProceed_def Let_def)
      qed
    qed
  qed
qed

lemma go_static: "static (state_of (go n target args opts s)) = static s"
proof (cases "goBranch (targetName target) (targetPath target) s")
  case MissingParameters
  then show ?thesis by (simp add: go_def log_def split: option.splits)
next
  case NotFound
  have "evolves s (state_of (goNotFound n s))"
    unfolding goNotFound_def
    by (intro evolves_and_then evolves_log evolves_withOptions evolves_Returned
          pipeline_evolves[THEN conjunct1])
  then have "static (state_of (goNotFound n s)) = static s" by (rule evolves_static)
  then show ?thesis using NotFound by (simp add: go_def)
next
  case Proceed
  then show ?thesis by (simp add: go_def goProceed_static)
qed

lemma beforeStart_uncompiled: "beforeStart s \<Longrightarrow> uncompiled s"
proof (induction rule: beforeStart.induct)
  case (loaded proto pn h)
  show ?case by (simp add: uncompiled_def init_def)
next
  case (declared s name "def")
  show ?case using declared.IH by (rule uncompiled_route)
next
  case (navigated s n target args opts)
  show ?case using navigated.IH uncompiled_static[OF go_static] by simp
next
  case (dispatched s n name pargs trigger)
  have "static (state_of (processControllers n name pargs trigger s)) = static s"
    using pipeline_evolves[THEN conjunct1] by (rule evolves_static)
  then have "uncompiled (state_of (processControllers n name pargs trigger s)) = uncompiled s"
    by (rule uncompiled_static)
  then show ?case using dispatched.IH by simp
next
  case (triggered s n triggers)
  have "static (state_of (processTriggers n triggers s)) = static s"
    using pipeline_evolves[THEN conjunct2, THEN conjunct2, THEN conjunct1] by (rule evolves_static)
  then have "uncompiled (state_of (processTriggers n triggers s)) = uncompiled s"
    by (rule uncompiled_static)
  then show ?case using triggered.IH by simp
next
  case (triggered_one s n t)
  have "static (state_of (processTrigger n t s)) = static s"
    using pipeline_evolves[THEN conjunct2, THEN conjunct2, THEN conjunct2] by (rule evolves_static)
  then have "uncompiled (state_of (processTrigger n t s)) = uncompiled s"
    by (rule uncompiled_static)
  then show ?case using triggered_one.IH by simp
next
  case (stored_route s)
  have "static (state_of (storeCurrentRoute s)) = static s"
    using evolves_storeCurrentRoute by (rule evolves_static)
  then have "uncompiled (state_of (storeCurrentRoute s)) = uncompiled s"
    by (rule uncompiled_static)
  then show ?case using stored_route.IH by simp
next
  case (cleared s)
  have "extendedController (clearCache s) = extendedController s" by (simp add: clearCache_def)
  then show ?case using cleared.IH unfolding uncompiled_def by (simp only:)
qed

lemma route_options: "options (state_of (route name def s)) = options s"
proof (cases "pathTaken (routeKey def) s")
  case False
  then show ?thesis by (simp add: route_unbound)
next
  case True
  show ?thesis
  proof (cases "map_of (extendedRoutes s) (routeKey def)")
    case None
    then show ?thesis by (simp add: route_taken[OF True])
  next
    case (Some names)
    then show ?thesis
      by (cases "map_of (extendedController s) (nameKey (holder (routeKey def) s))")
         (simp_all add: route_taken[OF True])
  qed
qed

lemma static_options: "static s' = static s \<Longrightarrow> options s' = options s"
  by (drule arg_cong[where f = options]) (simp add: static_def)

lemma beforeStart_options: "beforeStart s \<Longrightarrow> options s = None"
proof (induction rule: beforeStart.induct)
  case (loaded proto pn h)
  show ?case by (simp add: init_def)
next
  case (declared s name "def")
  then show ?case by (simp add: route_options)
next
  case (navigated s n target args opts)
  then show ?case using static_options[OF go_static] by simp
next
  case (dispatched s n name pargs trigger)
  have "static (state_of (processControllers n name pargs trigger s)) = static s"
    using pipeline_evolves[THEN conjunct1] by (rule evolves_static)
  then have "options (state_of (processControllers n name pargs trigger s)) = options s"
    by (rule static_options)
  then show ?case using dispatched.IH by simp
next
  case (triggered s n triggers)
  have "static (state_of (processTriggers n triggers s)) = static s"
    using pipeline_evolves[THEN conjunct2, THEN conjunct2, THEN conjunct1] by (rule evolves_static)
  then have "options (state_of (processTriggers n triggers s)) = options s"
    by (rule static_options)
  then show ?case using triggered.IH by simp
next
  case (triggered_one s n t)
  have "static (state_of (processTrigger n t s)) = static s"
    using pipeline_evolves[THEN conjunct2, THEN conjunct2, THEN conjunct2] by (rule evolves_static)
  then have "options (state_of (processTrigger n t s)) = options s"
    by (rule static_options)
  then show ?case using triggered_one.IH by simp
next
  case (stored_route s)
  have "static (state_of (storeCurrentRoute s)) = static s"
    using evolves_storeCurrentRoute by (rule evolves_static)
  then have "options (state_of (storeCurrentRoute s)) = options s"
    by (rule static_options)
  then show ?case using stored_route.IH by simp
next
  case (cleared s)
  then show ?case by (simp add: clearCache_def)
qed

lemma uncompiled_no_match:
  "list_all (\<lambda>(name, c). re c = None) al \<Longrightarrow>
   \<not> list_ex (\<lambda>(name, c). case re c of None \<Rightarrow> False | Some matcher \<Rightarrow> matcher p) al"
  by (induction al) auto

lemma uncompiled_no_path: "uncompiled s \<Longrightarrow> \<not> exists None (Some p) s"
  using uncompiled_no_match[of "extendedController s" p]
  by (simp add: uncompiled_def exists_def truthy_def)

text \<open>
  C9, as amended. While \<open>start\<close> has not been called, \<open>exists({path: p})\<close> is false for
  every path \<open>p\<close>, whatever has been declared under names other than \<open>__proto__\<close>:
  \<open>route\<close> creates every chain with the matcher \<open>null\<close>, and nothing but \<open>start\<close>
  sets one. So \<open>go({path: p})\<close> for a path that is not empty once its leading slash is
  removed takes the not-found branch; there it throws, at the log through
  \<open>this.options\<close>, which is still undefined, and leaves the state as it was. For the path
  \<open>"/"\<close> or the empty path, \<open>go\<close> takes the branch for missing parameters instead.
\<close>

theorem no_path_exists_before_start:
  "beforeStart s \<Longrightarrow>
   \<not> exists None (Some p) s
   \<and> (stripSlash p \<noteq> [] \<longrightarrow>
        goBranch (targetName (Route None (Some p) a)) (targetPath (Route None (Some p) a)) s = NotFound
        \<and> go n (Route None (Some p) a) args opts s = goNotFound n s
        \<and> go n (Route None (Some p) a) args opts s = Thrown TypeError s)"
proof -
  assume b: "beforeStart s"
  then have u: "uncompiled s" by (rule beforeStart_uncompiled)
  have o: "options s = None" using b by (rule beforeStart_options)
  have 1: "\<not> exists None (Some q) s" for q using u by (rule uncompiled_no_path)
  have 2: "goBranch None (Some (stripSlash p)) s = NotFound" if "stripSlash p \<noteq> []"
    using that 1[of "stripSlash p"] by (simp add: goBranch_def truthy_def)
  have 3: "go n (Route None (Some p) a) args opts s = goNotFound n s" if "stripSlash p \<noteq> []"
    using 2[OF that] by (simp add: go_def)
  have 4: "goBranch (targetName (Route None (Some p) a)) (targetPath (Route None (Some p) a)) s
             = NotFound" if "stripSlash p \<noteq> []"
    using 2[OF that] by simp
  have 5: "goNotFound n s = Thrown TypeError s" using o by (simp add: goNotFound_def log_def)
  show ?thesis using 1[of p] 3 4 5 by simp
qed

lemma beforeStart_routeAll: "beforeStart s \<Longrightarrow> beforeStart (state_of (routeAll regs s))"
proof (induction regs arbitrary: s)
  case Nil
  then show ?case by simp
next
  case (Cons r regs)
  obtain name "def" where r: "r = (name, def)" by (cases r)
  have b: "beforeStart (state_of (route name def s))" using Cons.prems by (rule declared)
  show ?case
  proof (cases "route name def s")
    case (Returned u s')
    then show ?thesis using Cons.IH[of s'] b r by simp
  next
    case (Thrown e s')
    then show ?thesis using b r by simp
  qed
qed

theorem no_path_exists_before_start_witness:
  "\<not> exists None (Some ''/x'') exampleShared
   \<and> \<not> exists None (Some ''x'') exampleShared
   \<and> goBranch None (Some ''x'') exampleShared = NotFound
   \<and> go 3 (Route None (Some ''/x'') None) None noOpts exampleShared
       = Thrown TypeError exampleShared"
proof -
  have b: "beforeStart exampleShared"
    unfolding exampleShared_def by (intro beforeStart_routeAll loaded)
  have s: "stripSlash ''/x'' \<noteq> []" by (simp add: stripSlash_def)
  have s': "stripSlash ''x'' \<noteq> []" by (simp add: stripSlash_def)
  note th = no_path_exists_before_start[OF b, of "''/x''" None 3 None noOpts]
  note th' = no_path_exists_before_start[OF b, of "''x''" None 3 None noOpts]
  have 1: "\<not> exists None (Some ''/x'') exampleShared" using th by blast
  have 2: "\<not> exists None (Some ''x'') exampleShared" using th' by blast
  have 3: "goBranch None (Some ''x'') exampleShared = NotFound"
    using th s by (simp add: stripSlash_def)
  have 4: "go 3 (Route None (Some ''/x'') None) None noOpts exampleShared
             = Thrown TypeError exampleShared"
    using th s by blast
  show ?thesis using 1 2 3 4 by simp
qed

theorem no_path_exists_before_start_counterexample:
  "map_of (routes (state_of (route (RName ''home'') (plainDef ''/'') (init examplePrototype ''/'' []))))
      [] = Some (RName ''home'')
   \<and> goBranch (targetName (Route None (Some ''/'') None)) (targetPath (Route None (Some ''/'') None))
        (state_of (route (RName ''home'') (plainDef ''/'') (init examplePrototype ''/'' [])))
       = MissingParameters"
  by (simp add: route_eval goBranch_def)

end
